theory Spec2Isabelle
  imports Complex_Main "HOL-Library.AList" "HOL-Library.Char_ord" "HOL-Library.List_Lexorder"
begin

section \<open>The ledger of \<open>src/App.jsx\<close>: data model\<close>

text \<open>
  The program is a single React component file. Its derived views and actions are
  embedded as HOL functions over the ledger state \<open>db\<close>. Three conventions hold for the
  whole development.

  \<^item> A JavaScript Number is an IEEE 754 double (section \<open>Numbers\<close>): every arithmetic
    operation rounds its exact result to the nearest double. \<open>Number(x)\<close> applied to a
    value that already is a number is the identity.
  \<^item> A \<open>Date\<close> built from a date-only string \<open>YYYY-MM-DD\<close> is the calendar date it names.
    The source parses such a string as UTC midnight, reads and writes the month in
    local time and prints in UTC; the model is the behaviour on a host whose local time
    is UTC or a fixed offset east of it (such as UTC+5), where the three agree on the
    calendar day. On such a host a date-only string and the local date it denotes do
    not differ, and no daylight saving shift moves a due date.
  \<^item> \<open>uid()\<close> and \<open>todayISO()\<close> read the random generator and the clock: the identifiers
    drawn and the current date are parameters of the functions that use them.
\<close>

section \<open>Numbers\<close>

text \<open>
  A finite double is the rational number it denotes; \<open>NaN\<close> and the two infinities are
  the one value \<open>NonFinite\<close>. The functions embedded here never divide by an infinity
  and never compare an amount, so every operation they apply to a value that is not
  finite gives a value that is not finite again. The sign of a zero is not represented.

  \<open>rnd\<close> is the rounding of IEEE 754, to the nearest double and to the even mantissa
  at a tie. A double has 53 bits of mantissa: \<open>exponent x\<close> is the binary exponent of
  \<open>x\<close> (\<open>2 ^ e \<le> \<bar>x\<bar> < 2 ^ (e + 1)\<close>), the spacing \<open>ulp x\<close> of the doubles around \<open>x\<close> is
  \<open>2 ^ (e - 52)\<close>, and \<open>2 ^ (- 1074)\<close> for the subnormal numbers below \<open>2 ^ (- 1022)\<close>.
  A result of magnitude \<open>2 ^ 1024\<close> after rounding is an infinity.
\<close>

datatype number = Fin rat | NonFinite

instantiation number :: zero
begin

definition zero_number :: number where
  "zero_number = Fin 0"

instance ..

end

definition round_even :: "rat \<Rightarrow> int" where
  "round_even r =
     (let f = \<lfloor>r\<rfloor>; d = r - of_int f
      in if d < 1 / 2 then f else if 1 / 2 < d then f + 1 else if even f then f else f + 1)"

function expo_up :: "rat \<Rightarrow> nat" where
  "expo_up x = (if x < 2 then 0 else Suc (expo_up (x / 2)))"
  by pat_completeness auto
termination
proof (relation "measure (\<lambda>x. nat \<lfloor>x\<rfloor>)")
  show "wf (measure (\<lambda>x::rat. nat \<lfloor>x\<rfloor>))" by simp
next
  fix x :: rat
  assume "\<not> x < 2"
  then have x: "2 \<le> x" by simp
  then have "x / 2 \<le> x - 1" by simp
  then have "\<lfloor>x / 2\<rfloor> \<le> \<lfloor>x - 1\<rfloor>" by (rule floor_mono)
  then have "\<lfloor>x / 2\<rfloor> < \<lfloor>x\<rfloor>" by simp
  moreover have "0 < \<lfloor>x\<rfloor>" using x by simp
  ultimately show "(x / 2, x) \<in> measure (\<lambda>x. nat \<lfloor>x\<rfloor>)" by simp
qed

function expo_down :: "rat \<Rightarrow> nat" where
  "expo_down x = (if x \<le> 0 \<or> 1 \<le> x then 0 else Suc (expo_down (2 * x)))"
  by pat_completeness auto
termination
proof (relation "measure (\<lambda>x. nat \<lceil>1 / x\<rceil>)")
  show "wf (measure (\<lambda>x::rat. nat \<lceil>1 / x\<rceil>))" by simp
next
  fix x :: rat
  assume "\<not> (x \<le> 0 \<or> 1 \<le> x)"
  then have x: "0 < x" "x < 1" by simp_all
  define y where "y = 1 / x"
  have y: "1 < y" using x by (simp add: y_def)
  then have "2 \<le> \<lceil>y\<rceil>" by linarith
  then have "(2::rat) \<le> of_int \<lceil>y\<rceil>" by linarith
  moreover have "y \<le> of_int \<lceil>y\<rceil>" by simp
  ultimately have "y / 2 \<le> of_int \<lceil>y\<rceil> - 1" by linarith
  then have "\<lceil>y / 2\<rceil> < \<lceil>y\<rceil>" by (simp add: ceiling_less_iff)
  moreover have "1 / (2 * x) = y / 2" by (simp add: y_def)
  ultimately have less: "\<lceil>1 / (2 * x)\<rceil> < \<lceil>y\<rceil>" by (simp only:)
  have "0 < \<lceil>y\<rceil>" using y by linarith
  with less have "nat \<lceil>1 / (2 * x)\<rceil> < nat \<lceil>y\<rceil>" by linarith
  then show "(2 * x, x) \<in> measure (\<lambda>x. nat \<lceil>1 / x\<rceil>)"
    unfolding y_def by (simp only: in_measure)
qed

definition exponent :: "rat \<Rightarrow> int" where
  "exponent x = (if 1 \<le> \<bar>x\<bar> then int (expo_up \<bar>x\<bar>) else - int (expo_down \<bar>x\<bar>))"

definition pow2 :: "int \<Rightarrow> rat" where
  "pow2 k = (if 0 \<le> k then 2 ^ nat k else 1 / 2 ^ nat (- k))"

definition ulp :: "rat \<Rightarrow> rat" where
  "ulp x = pow2 (max (exponent x) (- 1022) - 52)"

definition fl :: "rat \<Rightarrow> rat" where
  "fl x = of_int (round_even (x / ulp x)) * ulp x"

definition rnd :: "rat \<Rightarrow> number" where
  "rnd x = (let y = fl x in if 2 ^ 1024 \<le> \<bar>y\<bar> then NonFinite else Fin y)"

text \<open>
  A decimal literal of the source text, and a decimal string that \<open>Number\<close> converts,
  denote the double nearest to the decimal.
\<close>

definition literal :: "rat \<Rightarrow> number" where
  "literal r = rnd r"

fun num_add :: "number \<Rightarrow> number \<Rightarrow> number" where
  "num_add (Fin a) (Fin b) = rnd (a + b)"
| "num_add _ _ = NonFinite"

fun num_sub :: "number \<Rightarrow> number \<Rightarrow> number" where
  "num_sub (Fin a) (Fin b) = rnd (a - b)"
| "num_sub _ _ = NonFinite"

fun num_mul :: "number \<Rightarrow> number \<Rightarrow> number" where
  "num_mul (Fin a) (Fin b) = rnd (a * b)"
| "num_mul _ _ = NonFinite"

text \<open>A division by zero gives an infinity or \<open>NaN\<close>; it does not throw.\<close>

fun num_div :: "number \<Rightarrow> number \<Rightarrow> number" where
  "num_div (Fin a) (Fin b) = (if b = 0 then NonFinite else rnd (a / b))"
| "num_div _ _ = NonFinite"

text \<open>
  \<open>Math.round\<close> gives the nearest integer, a half upwards. The integer nearest to a
  double is a double, so the result is not rounded again.
\<close>

fun Math_round :: "number \<Rightarrow> number" where
  "Math_round (Fin x) = Fin (of_int \<lfloor>x + 1 / 2\<rfloor>)"
| "Math_round NonFinite = NonFinite"

section \<open>The records of the ledger\<close>

text \<open>
  The \<open>type\<close> of a transaction is one of the strings \<open>'income'\<close> and \<open>'expense'\<close>, the two
  options of the form's select control. The fields \<open>id\<close>, \<open>amount\<close> and \<open>dueDate\<close> occur in
  several of the source's objects; each record has its own prefix here.
\<close>

type_synonym ident = string

datatype txtype = Income | Expense

record transaction =
  tx_id :: ident
  tx_date :: string
  tx_type :: txtype
  tx_description :: string
  tx_amount :: number
  tx_bank :: string
  tx_category :: string

record installment =
  inst_id :: ident
  inst_dueDate :: string
  inst_amount :: number
  inst_paid :: bool
  inst_paidDate :: "string option"

record loan =
  loan_id :: ident
  loan_person :: string
  loan_amount :: number
  loan_startDate :: string
  loan_dueDate :: "string option"
  loan_installments :: int
  loan_notes :: string
  loan_schedule :: "installment list"

record db =
  transactions :: "transaction list"
  loansTaken :: "loan list"
  loansGiven :: "loan list"

definition BANKS :: "string list" where
  "BANKS = [''UBL'', ''JS Bank'', ''Meezan Bank'', ''ABL'', ''NayaPay'', ''Easypaisa'', ''JazzCash'']"

section \<open>Derived views of the transactions\<close>

subsection \<open>\<open>bankSummaries\<close>\<close>

text \<open>
  A plain object with string keys is an association list of its own properties in
  insertion order: \<^const>\<open>AList.update\<close> overwrites the value of a key that is present
  and appends a new key at the end, as the definition of a property does, and
  \<open>Object.entries\<close> is the list itself. (No key of this program is an array index,
  which \<open>Object.entries\<close> would list first.) The object \<open>sums\<close> of the source is \<open>bsums\<close>
  here (\<open>sums\<close> is a HOL constant).

  The object \<open>sums\<close> inherits from \<open>Object.prototype\<close>. \<open>k in sums\<close> holds for an own
  key and for the name of a member of \<open>Object.prototype\<close>, and \<open>sums[k]\<close> reads the
  inherited member when \<open>k\<close> is no own key. A member of \<open>Object.prototype\<close> is a
  function or, for \<open>__proto__\<close>, the prototype object: \<open>+=\<close> turns it into a string and
  appends the decimal text of the number. The text of a string is not spelled out: a
  string is the list of its pieces, \<open>Member k\<close> for the text of the inherited member \<open>k\<close>
  and \<open>Digits n\<close> for the decimal text of the number \<open>n\<close>. An assignment \<open>sums[k] = v\<close>
  defines or overwrites the own property \<open>k\<close>, except for the inherited accessor
  \<open>__proto__\<close>: its setter ignores a value that is not an object.
\<close>

type_synonym 'v obj = "(string \<times> 'v) list"

datatype piece = Member string | Digits number

datatype jsval = Num number | Str "piece list"

definition fromEntries :: "(string \<times> 'v) list \<Rightarrow> 'v obj" where
  "fromEntries es = fold (\<lambda>(k, v) ob. AList.update k v ob) es []"

definition Object_prototype :: "string list" where
  "Object_prototype =
     [''constructor'', ''__defineGetter__'', ''__defineSetter__'', ''hasOwnProperty'',
      ''__lookupGetter__'', ''__lookupSetter__'', ''isPrototypeOf'', ''propertyIsEnumerable'',
      ''toString'', ''valueOf'', ''__proto__'', ''toLocaleString'']"

definition has_property :: "string \<Rightarrow> jsval obj \<Rightarrow> bool" where
  "has_property k ob = (k \<in> set (map fst ob) \<or> k \<in> set Object_prototype)"

text \<open>\<open>None\<close> is the value \<open>undefined\<close> of a name that is neither own nor inherited.\<close>

definition get_property :: "string \<Rightarrow> jsval obj \<Rightarrow> jsval option" where
  "get_property k ob =
     (case map_of ob k of
        Some v \<Rightarrow> Some v
      | None \<Rightarrow> if k \<in> set Object_prototype then Some (Str [Member k]) else None)"

definition set_property :: "string \<Rightarrow> jsval \<Rightarrow> jsval obj \<Rightarrow> jsval obj" where
  "set_property k v ob =
     (if k = ''__proto__'' \<and> map_of ob k = None then ob else AList.update k v ob)"

fun js_plus :: "jsval option \<Rightarrow> number \<Rightarrow> jsval" where
  "js_plus (Some (Num v)) x = Num (num_add v x)"
| "js_plus (Some (Str ps)) x = Str (ps @ [Digits x])"
| "js_plus None x = Num NonFinite"

definition signed :: "transaction \<Rightarrow> number" where
  "signed t = num_mul (Fin (if tx_type t = Income then 1 else - 1)) (tx_amount t)"

fun bankSummaries_loop :: "transaction list \<Rightarrow> jsval obj \<Rightarrow> jsval obj" where
  "bankSummaries_loop [] bsums = bsums"
| "bankSummaries_loop (t # ts) bsums =
     (if \<not> has_property (tx_bank t) bsums then bankSummaries_loop ts bsums
      else bankSummaries_loop ts
             (set_property (tx_bank t) (js_plus (get_property (tx_bank t) bsums) (signed t)) bsums))"

definition bankSummaries :: "transaction list \<Rightarrow> jsval obj" where
  "bankSummaries txs = bankSummaries_loop txs (fromEntries (map (\<lambda>b. (b, Num (Fin 0))) BANKS))"

subsection \<open>\<open>totals\<close>\<close>

record totals_row =
  tot_income :: number
  tot_expense :: number
  tot_net :: number

fun totals_loop :: "transaction list \<Rightarrow> number \<Rightarrow> number \<Rightarrow> number \<times> number" where
  "totals_loop [] income expense = (income, expense)"
| "totals_loop (t # ts) income expense =
     (if tx_type t = Income then totals_loop ts (num_add income (tx_amount t)) expense
      else totals_loop ts income (num_add expense (tx_amount t)))"

definition totals :: "transaction list \<Rightarrow> totals_row" where
  "totals txs = (case totals_loop txs (Fin 0) (Fin 0) of
     (income, expense) \<Rightarrow>
       \<lparr>tot_income = income, tot_expense = expense, tot_net = num_sub income expense\<rparr>)"

subsection \<open>The bank snapshot of \<open>Reports\<close>\<close>

record bank_row =
  row_bank :: string
  row_balance :: jsval

definition bankArray :: "jsval obj \<Rightarrow> bank_row list" where
  "bankArray bsums = map (\<lambda>(bank, balance). \<lparr>row_bank = bank, row_balance = balance\<rparr>) bsums"

section \<open>Dates\<close>

text \<open>
  A valid \<open>Date\<close> is a calendar date: year, month index (0 for January, as
  \<open>getMonth\<close> counts) and day of the month. \<open>new_Date\<close> reads the date-only form
  \<open>YYYY-MM-DD\<close> of a real calendar day, which is what \<open>todayISO()\<close> and a date input
  produce; every other string is the invalid date \<open>None\<close> here. (What an engine makes
  of a day that the month does not have, such as \<open>2023-02-30\<close>, differs between
  engines; no statement below is about such a string.)
\<close>

record civil =
  getFullYear :: nat
  getMonth :: nat
  getDate :: nat

definition leap :: "nat \<Rightarrow> bool" where
  "leap y = (y mod 4 = 0 \<and> (y mod 100 \<noteq> 0 \<or> y mod 400 = 0))"

definition DaysInMonth :: "nat \<Rightarrow> nat \<Rightarrow> nat" where
  "DaysInMonth y m =
     (if m = 1 then (if leap y then 29 else 28)
      else if m = 3 \<or> m = 5 \<or> m = 8 \<or> m = 10 then 30 else 31)"

definition digit :: "char \<Rightarrow> nat option" where
  "digit c = map_of (zip ''0123456789'' [0, 1, 2, 3, 4, 5, 6, 7, 8, 9]) c"

fun number_of_digits :: "nat \<Rightarrow> string \<Rightarrow> nat option" where
  "number_of_digits acc [] = Some acc"
| "number_of_digits acc (c # cs) =
     (case digit c of None \<Rightarrow> None | Some v \<Rightarrow> number_of_digits (10 * acc + v) cs)"

fun new_Date :: "string \<Rightarrow> civil option" where
  "new_Date [y1, y2, y3, y4, h1, m1, m2, h2, d1, d2] =
     (if h1 = CHR ''-'' \<and> h2 = CHR ''-'' then
        (case (number_of_digits 0 [y1, y2, y3, y4], number_of_digits 0 [m1, m2],
               number_of_digits 0 [d1, d2]) of
           (Some y, Some m, Some d) \<Rightarrow>
             if 1 \<le> m \<and> m \<le> 12 \<and> 1 \<le> d \<and> d \<le> DaysInMonth y (m - 1)
             then Some \<lparr>getFullYear = y, getMonth = m - 1, getDate = d\<rparr>
             else None
         | _ \<Rightarrow> None)
      else None)"
| "new_Date _ = None"

text \<open>
  \<open>MakeDay y m d\<close> is the day \<open>d\<close> counted from the first of month \<open>m\<close> of year \<open>y\<close>:
  a day beyond the end of the month runs over into the following months.
  \<open>setMonth\<close> keeps the day of the month and normalises the month index and the day
  through it. The time value of a \<open>Date\<close> reaches 100 million days after the first of
  January 1970, which is the 13th of September 275760: \<open>TimeClip\<close> makes a later date
  the invalid date.
\<close>

definition date_less :: "civil \<Rightarrow> civil \<Rightarrow> bool" where
  "date_less a b =
     (getFullYear a < getFullYear b
      \<or> getFullYear a = getFullYear b
        \<and> (getMonth a < getMonth b \<or> getMonth a = getMonth b \<and> getDate a < getDate b))"

function MakeDay :: "nat \<Rightarrow> nat \<Rightarrow> nat \<Rightarrow> civil" where
  "MakeDay y m d =
     (if DaysInMonth y m < d then
        (if m = 11 then MakeDay (y + 1) 0 (d - DaysInMonth y m)
         else MakeDay y (m + 1) (d - DaysInMonth y m))
      else \<lparr>getFullYear = y, getMonth = m, getDate = d\<rparr>)"
  by pat_completeness auto
termination
  by (relation "measure (\<lambda>(y, m, d). d)") (auto simp: DaysInMonth_def)

definition TimeClip :: "civil \<Rightarrow> civil option" where
  "TimeClip d =
     (if date_less \<lparr>getFullYear = 275760, getMonth = 8, getDate = 13\<rparr> d then None else Some d)"

definition setMonth :: "civil \<Rightarrow> nat \<Rightarrow> civil option" where
  "setMonth dt m = TimeClip (MakeDay (getFullYear dt + m div 12) (m mod 12) (getDate dt))"

definition digit_char :: "nat \<Rightarrow> char" where
  "digit_char n = ''0123456789'' ! (n mod 10)"

fun pad :: "nat \<Rightarrow> nat \<Rightarrow> string" where
  "pad 0 n = []"
| "pad (Suc w) n = pad w (n div 10) @ [digit_char n]"

fun String_nat :: "nat \<Rightarrow> string" where
  "String_nat n = (if n < 10 then [digit_char n] else String_nat (n div 10) @ [digit_char n])"

definition padStart :: "nat \<Rightarrow> char \<Rightarrow> string \<Rightarrow> string" where
  "padStart w c s = replicate (w - length s) c @ s"

text \<open>
  \<open>toISOString\<close> prints a year up to 9999 with four digits and a later one with a sign
  and six; the source keeps the first ten characters.
\<close>

definition toISOString :: "civil \<Rightarrow> string" where
  "toISOString dt =
     (if getFullYear dt \<le> 9999 then pad 4 (getFullYear dt) else CHR ''+'' # pad 6 (getFullYear dt))
     @ ''-'' @ pad 2 (getMonth dt + 1) @ ''-'' @ pad 2 (getDate dt) @ ''T00:00:00.000Z''"

definition monthKey :: "string \<Rightarrow> string" where
  "monthKey d =
     (case new_Date d of
        None \<Rightarrow> ''NaN-NaN''
      | Some dt \<Rightarrow> String_nat (getFullYear dt) @ ''-'' @ padStart 2 (CHR ''0'') (String_nat (getMonth dt + 1)))"

definition yearKey :: "string \<Rightarrow> string" where
  "yearKey d = (case new_Date d of None \<Rightarrow> ''NaN'' | Some dt \<Rightarrow> String_nat (getFullYear dt))"

section \<open>Time-bucketed totals\<close>

text \<open>
  A \<open>Map\<close> with string keys is an association list in the order of first insertion.
  The three views run the same loop and differ in the key they take from a
  transaction, so the loop is written once, with the key as a parameter.
  The default \<open>sort()\<close> compares the entries as strings: an entry \<open>[k, v]\<close> prints as
  \<open>k\<close>, a comma and \<open>[object Object]\<close>. Strings compare by code units, which is the
  lexicographic order of \<^theory_text>\<open>List_Lexorder\<close> over \<^theory_text>\<open>Char_ord\<close>; \<open>localeCompare\<close> is
  taken to be that order too. The keys of a \<open>Map\<close> are distinct, so the sorted array
  does not depend on the sorting algorithm.
\<close>

record bucket =
  b_income :: number
  b_expense :: number

definition bucket_add :: "txtype \<Rightarrow> number \<Rightarrow> bucket \<Rightarrow> bucket" where
  "bucket_add ty a v =
     (case ty of Income \<Rightarrow> v\<lparr>b_income := num_add (b_income v) a\<rparr>
               | Expense \<Rightarrow> v\<lparr>b_expense := num_add (b_expense v) a\<rparr>)"

fun bucket_loop :: "(transaction \<Rightarrow> string) \<Rightarrow> transaction list \<Rightarrow> bucket obj \<Rightarrow> bucket obj" where
  "bucket_loop key [] m = m"
| "bucket_loop key (t # ts) m =
     (let k = key t;
          m1 = (case map_of m k of
                  None \<Rightarrow> AList.update k \<lparr>b_income = Fin 0, b_expense = Fin 0\<rparr> m
                | Some _ \<Rightarrow> m)
      in case map_of m1 k of
           None \<Rightarrow> bucket_loop key ts m1
         | Some v \<Rightarrow> bucket_loop key ts (AList.update k (bucket_add (tx_type t) (tx_amount t) v) m1))"

definition entry_string :: "string \<times> bucket \<Rightarrow> string" where
  "entry_string e = fst e @ '','' @ ''[object Object]''"

record daily_row =
  d_date :: string
  d_income :: number
  d_expense :: number
  d_net :: number

record monthly_row =
  m_month :: string
  m_income :: number
  m_expense :: number
  m_saving :: number

record yearly_row =
  y_year :: string
  y_income :: number
  y_expense :: number
  y_saving :: number

definition dailyTotals :: "transaction list \<Rightarrow> daily_row list" where
  "dailyTotals txs =
     map (\<lambda>(date, v). \<lparr>d_date = date, d_income = b_income v, d_expense = b_expense v,
                       d_net = num_sub (b_income v) (b_expense v)\<rparr>)
       (sort_key fst (bucket_loop tx_date txs []))"

definition monthlySavings :: "transaction list \<Rightarrow> monthly_row list" where
  "monthlySavings txs =
     map (\<lambda>(m, v). \<lparr>m_month = m, m_income = b_income v, m_expense = b_expense v,
                    m_saving = num_sub (b_income v) (b_expense v)\<rparr>)
       (sort_key entry_string (bucket_loop (\<lambda>t. monthKey (tx_date t)) txs []))"

definition yearlySavings :: "transaction list \<Rightarrow> yearly_row list" where
  "yearlySavings txs =
     map (\<lambda>(y, v). \<lparr>y_year = y, y_income = b_income v, y_expense = b_expense v,
                    y_saving = num_sub (b_income v) (b_expense v)\<rparr>)
       (sort_key entry_string (bucket_loop (\<lambda>t. yearKey (tx_date t)) txs []))"

section \<open>The running balance of \<open>BanksView\<close>\<close>

text \<open>
  \<open>db.transactions\<close> holds the newest transaction first (\<open>addTransaction\<close> prepends).
  The callback of \<open>map\<close> updates the variable \<open>bal\<close>, so the map is a recursion that
  threads the balance through the rows in array order.
\<close>

record running_row =
  r_tx :: transaction
  r_running :: number

definition bankTx :: "transaction list \<Rightarrow> string \<Rightarrow> transaction list" where
  "bankTx txs activeBank = rev (filter (\<lambda>t. tx_bank t = activeBank) txs)"

fun running_map :: "transaction list \<Rightarrow> number \<Rightarrow> running_row list" where
  "running_map [] bal = []"
| "running_map (t # ts) bal =
     (let bal' = num_add bal (num_mul (Fin (if tx_type t = Income then 1 else - 1)) (tx_amount t))
      in \<lparr>r_tx = t, r_running = bal'\<rparr> # running_map ts bal')"

definition running :: "transaction list \<Rightarrow> running_row list" where
  "running btx = (let rows = running_map (rev btx) (Fin 0) in rev rows)"

definition addTransaction :: "ident \<Rightarrow> transaction \<Rightarrow> db \<Rightarrow> db" where
  "addTransaction new_id tx prev = prev\<lparr>transactions := tx\<lparr>tx_id := new_id\<rparr> # transactions prev\<rparr>"

section \<open>Loans and installment schedules\<close>

subsection \<open>\<open>generateSchedule\<close>\<close>

text \<open>
  The identifiers that \<open>uid()\<close> returns are the parameter \<open>uid\<close>: \<open>uid k\<close> is the
  result of the call number \<open>k\<close>. The count is a whole number, as the form's control
  gives it.
  The function can throw at two places. \<open>toISOString\<close> of an invalid date throws a
  \<open>RangeError\<close>: in the first round of the loop when the start date is invalid, and in
  the round whose due date lies beyond the range of \<open>Date\<close>. After a loop of no rounds
  the list is empty, \<open>list[list.length-1]\<close> is \<open>undefined\<close> and the read of its
  \<open>amount\<close> throws a \<open>TypeError\<close>. The division \<open>amt / count\<close> does not throw.
\<close>

datatype js_error = TypeError | RangeError

function generateSchedule_loop ::
  "(nat \<Rightarrow> ident) \<Rightarrow> civil option \<Rightarrow> number \<Rightarrow> int \<Rightarrow> nat \<Rightarrow> installment list
     \<Rightarrow> js_error + installment list" where
  "generateSchedule_loop uid s per count i list =
     (if int i < count then
        (case Option.bind s (\<lambda>d0. setMonth d0 (getMonth d0 + i + 1)) of
           None \<Rightarrow> Inl RangeError
         | Some d \<Rightarrow>
             generateSchedule_loop uid s per count (i + 1)
               (list @ [\<lparr>inst_id = uid i, inst_dueDate = take 10 (toISOString d),
                          inst_amount = per, inst_paid = False, inst_paidDate = None\<rparr>]))
      else Inr list)"
  by pat_completeness auto
termination
  by (relation "measure (\<lambda>(uid, s, per, count, i, list). nat (count - int i))") auto

definition generateSchedule ::
  "(nat \<Rightarrow> ident) \<Rightarrow> number \<Rightarrow> string \<Rightarrow> int \<Rightarrow> js_error + installment list" where
  "generateSchedule uid amount start count =
     (let amt = amount;
          per = num_div (Math_round (num_mul (num_div amt (Fin (of_int count))) (Fin 100))) (Fin 100);
          s = new_Date start
      in case generateSchedule_loop uid s per count 0 [] of
           Inl e \<Rightarrow> Inl e
         | Inr list \<Rightarrow>
             let sum = foldl (\<lambda>s x. num_add s (inst_amount x)) (Fin 0) list
             in if list = [] then Inl TypeError
                else let lst = list ! (length list - 1)
                     in Inr (list[length list - 1 :=
                          lst\<lparr>inst_amount :=
                            num_div (Math_round (num_mul (num_add (inst_amount lst) (num_sub amt sum))
                                                   (Fin 100))) (Fin 100)\<rparr>]))"

subsection \<open>The actions on loans\<close>

text \<open>
  The two loan collections are selected by the property name \<open>kind\<close>, which the callers
  take from \<open>'loansTaken'\<close> and \<open>'loansGiven'\<close>. The state updater passed to \<open>setDb\<close> is
  the function from the previous state \<open>prev\<close> to the next one. The current date that
  \<open>todayISO()\<close> returns is the first parameter of \<open>toggleInstallment\<close>.
\<close>

datatype kind = LoansTaken | LoansGiven

fun get_loans :: "kind \<Rightarrow> db \<Rightarrow> loan list" where
  "get_loans LoansTaken d = loansTaken d"
| "get_loans LoansGiven d = loansGiven d"

fun set_loans :: "kind \<Rightarrow> loan list \<Rightarrow> db \<Rightarrow> db" where
  "set_loans LoansTaken ls d = d\<lparr>loansTaken := ls\<rparr>"
| "set_loans LoansGiven ls d = d\<lparr>loansGiven := ls\<rparr>"

definition addLoan :: "ident \<Rightarrow> kind \<Rightarrow> loan \<Rightarrow> db \<Rightarrow> db" where
  "addLoan new_id kind payload prev =
     set_loans kind (payload\<lparr>loan_id := new_id\<rparr> # get_loans kind prev) prev"

definition toggleInstallment :: "string \<Rightarrow> kind \<Rightarrow> ident \<Rightarrow> ident \<Rightarrow> db \<Rightarrow> db" where
  "toggleInstallment todayISO kind loanId instId prev =
     set_loans kind
       (map (\<lambda>l. if loan_id l \<noteq> loanId then l
                 else l\<lparr>loan_schedule :=
                    map (\<lambda>s. if inst_id s \<noteq> instId then s
                              else s\<lparr>inst_paid := \<not> inst_paid s,
                                     inst_paidDate := (if \<not> inst_paid s then Some todayISO else None)\<rparr>)
                      (loan_schedule l)\<rparr>)
          (get_loans kind prev))
       prev"

definition deleteLoan :: "kind \<Rightarrow> ident \<Rightarrow> db \<Rightarrow> db" where
  "deleteLoan kind loanId prev = set_loans kind (filter (\<lambda>l. loan_id l \<noteq> loanId) (get_loans kind prev)) prev"

subsection \<open>\<open>createLoan\<close>\<close>

text \<open>
  The form holds what its input controls hold. A number input is empty or holds a
  number: \<open>None\<close> is the empty string, which is falsy and which \<open>Number\<close> turns into 0.
  The control of the installment count takes whole numbers.
  \<open>createLoan\<close> either shows an alert and returns, or throws what \<open>generateSchedule\<close>
  throws, or hands the payload to \<open>addLoan\<close>. \<open>generateSchedule\<close> draws its identifiers
  first and \<open>addLoan\<close> the next one. The payload has no \<open>id\<close> yet (the empty string
  here); \<open>addLoan\<close> sets it. \<open>or_zero\<close> is the operator \<open>|| 0\<close> on a number. The reset of
  the form after the call is not part of the ledger state.
\<close>

record loan_form =
  f_person :: string
  f_amount :: "number option"
  f_startDate :: string
  f_dueDate :: string
  f_installments :: "int option"
  f_notes :: string

datatype failure = Alert string | Thrown js_error

definition Number_input :: "'a::zero option \<Rightarrow> 'a" where
  "Number_input v = (case v of None \<Rightarrow> 0 | Some x \<Rightarrow> x)"

definition or_zero :: "int \<Rightarrow> int" where
  "or_zero x = (if x \<noteq> 0 then x else 0)"

definition createLoan :: "(nat \<Rightarrow> ident) \<Rightarrow> kind \<Rightarrow> loan_form \<Rightarrow> db \<Rightarrow> failure + db" where
  "createLoan uid kind form prev =
     (if f_person form = [] \<or> f_amount form = None then Inl (Alert ''Enter person & amount'')
      else
        case (if 0 < Number_input (f_installments form)
              then generateSchedule uid (Number_input (f_amount form)) (f_startDate form)
                     (Number_input (f_installments form))
              else Inr []) of
          Inl e \<Rightarrow> Inl (Thrown e)
        | Inr schedule \<Rightarrow>
            Inr (addLoan (uid (length schedule)) kind
                   \<lparr>loan_id = [], loan_person = f_person form,
                    loan_amount = Number_input (f_amount form),
                    loan_startDate = f_startDate form,
                    loan_dueDate = (if f_dueDate form = [] then None else Some (f_dueDate form)),
                    loan_installments = or_zero (Number_input (f_installments form)),
                    loan_notes = f_notes form,
                    loan_schedule = schedule\<rparr>
                   prev))"

section \<open>Auxiliary definitions of the proofs\<close>

text \<open>
  The due date of round \<open>k\<close> of the loop of \<open>generateSchedule\<close> before \<open>TimeClip\<close>, and
  the installment that the round pushes.
\<close>

definition due :: "civil \<Rightarrow> nat \<Rightarrow> civil" where
  "due d0 k =
     MakeDay (getFullYear d0 + (getMonth d0 + k + 1) div 12) ((getMonth d0 + k + 1) mod 12) (getDate d0)"

definition mk_installment :: "(nat \<Rightarrow> ident) \<Rightarrow> civil \<Rightarrow> number \<Rightarrow> nat \<Rightarrow> installment" where
  "mk_installment uid d0 per k =
     \<lparr>inst_id = uid k, inst_dueDate = take 10 (toISOString (due d0 k)),
      inst_amount = per, inst_paid = False, inst_paidDate = None\<rparr>"

text \<open>The amounts that \<open>generateSchedule\<close> computes: of each round, and of the last installment.\<close>

definition per_amount :: "number \<Rightarrow> int \<Rightarrow> number" where
  "per_amount amt count =
     num_div (Math_round (num_mul (num_div amt (Fin (of_int count))) (Fin 100))) (Fin 100)"

definition last_amount :: "number \<Rightarrow> int \<Rightarrow> number" where
  "last_amount amt count =
     (let per = per_amount amt count;
          sum = foldl num_add (Fin 0) (replicate (nat count) per)
      in num_div (Math_round (num_mul (num_add per (num_sub amt sum)) (Fin 100))) (Fin 100))"




text \<open>The loan collection that an action on \<open>kind\<close> does not select.\<close>

definition other_kind :: "kind \<Rightarrow> kind" where
  "other_kind k = (case k of LoansTaken \<Rightarrow> LoansGiven | LoansGiven \<Rightarrow> LoansTaken)"

declare expo_up.simps [simp del]
declare Math_round.simps(1) [simp del]
declare expo_down.simps [simp del]
declare String_nat.simps [simp del]
declare MakeDay.simps [simp del]
declare generateSchedule_loop.simps [simp del]

section \<open>Rounding to a double\<close>

text \<open>The exponent functions find the binary exponent.\<close>

lemma expo_up_bounds:
  "1 \<le> x \<Longrightarrow> 2 ^ expo_up x \<le> x \<and> x < 2 ^ (expo_up x + 1)"
proof (induction x rule: expo_up.induct)
  case (1 x)
  show ?case
  proof (cases "x < 2")
    case True
    then show ?thesis using 1(2) by (simp add: expo_up.simps [of x])
  next
    case False
    then have "1 \<le> x / 2" by simp
    with 1(1) False have "2 ^ expo_up (x / 2) \<le> x / 2 \<and> x / 2 < 2 ^ (expo_up (x / 2) + 1)"
      by simp
    then show ?thesis using False by (simp add: expo_up.simps [of x])
  qed
qed

lemma expo_up_eq:
  assumes "2 ^ e \<le> x" "x < 2 ^ (e + 1)"
  shows "expo_up x = e"
proof -
  have "(1::rat) \<le> 2 ^ e" by simp
  with assms(1) have x1: "1 \<le> x" by linarith
  from expo_up_bounds [OF x1] have b: "2 ^ expo_up x \<le> x" "x < 2 ^ (expo_up x + 1)" by simp_all
  from b(1) assms(2) have "(2::rat) ^ expo_up x < 2 ^ (e + 1)" by linarith
  then have "expo_up x < e + 1"
    by (simp only: power_strict_increasing_iff [of "2::rat"] one_less_numeral_iff semiring_norm)
  moreover from assms(1) b(2) have "(2::rat) ^ e < 2 ^ (expo_up x + 1)" by linarith
  then have "e < expo_up x + 1"
    by (simp only: power_strict_increasing_iff [of "2::rat"] one_less_numeral_iff semiring_norm)
  ultimately show ?thesis by simp
qed

lemma expo_down_bounds:
  "0 < x \<Longrightarrow> x < 1 \<Longrightarrow> 1 \<le> x * 2 ^ expo_down x \<and> x * 2 ^ expo_down x < 2 \<and> 0 < expo_down x"
proof (induction x rule: expo_down.induct)
  case (1 x)
  show ?case
  proof (cases "1 \<le> 2 * x")
    case True
    then have "expo_down (2 * x) = 0" by (simp add: expo_down.simps [of "2 * x"])
    then have "expo_down x = 1" using 1(2,3) by (simp add: expo_down.simps [of x])
    then show ?thesis using True 1(3) by simp
  next
    case False
    with 1 have "1 \<le> 2 * x * 2 ^ expo_down (2 * x) \<and> 2 * x * 2 ^ expo_down (2 * x) < 2"
      by simp
    moreover have "expo_down x = Suc (expo_down (2 * x))"
      using 1(2,3) by (simp add: expo_down.simps [of x])
    ultimately show ?thesis by (simp add: mult.assoc mult.left_commute)
  qed
qed

lemma expo_down_eq:
  assumes "0 < x" "x < 1" "1 \<le> x * 2 ^ d" "x * 2 ^ d < 2"
  shows "expo_down x = d"
proof -
  from expo_down_bounds [OF assms(1,2)]
  have b: "1 \<le> x * 2 ^ expo_down x" "x * 2 ^ expo_down x < 2" by simp_all
  have "x * 2 ^ expo_down x < x * 2 ^ (d + 1)" using b(2) assms(3) by simp
  then have "(2::rat) ^ expo_down x < 2 ^ (d + 1)"
    using assms(1) by (simp only: mult_less_cancel_left_pos)
  then have "expo_down x < d + 1"
    by (simp only: power_strict_increasing_iff [of "2::rat"] one_less_numeral_iff semiring_norm)
  moreover have "x * 2 ^ d < x * 2 ^ (expo_down x + 1)" using b(1) assms(4) by simp
  then have "(2::rat) ^ d < 2 ^ (expo_down x + 1)"
    using assms(1) by (simp only: mult_less_cancel_left_pos)
  then have "d < expo_down x + 1"
    by (simp only: power_strict_increasing_iff [of "2::rat"] one_less_numeral_iff semiring_norm)
  ultimately show ?thesis by simp
qed

lemma pow2_pos: "0 < pow2 k"
  by (simp add: pow2_def)

lemma exponent_eq:
  assumes "pow2 e \<le> \<bar>x\<bar>" "\<bar>x\<bar> < pow2 (e + 1)"
  shows "exponent x = e"
proof (cases "0 \<le> e")
  case True
  then have "2 ^ nat e \<le> \<bar>x\<bar>" "\<bar>x\<bar> < 2 ^ (nat e + 1)"
    using assms by (simp_all add: pow2_def nat_add_distrib)
  then have "expo_up \<bar>x\<bar> = nat e" by (rule expo_up_eq)
  moreover have "(1::rat) \<le> 2 ^ nat e" by simp
  with \<open>2 ^ nat e \<le> \<bar>x\<bar>\<close> have "1 \<le> \<bar>x\<bar>" by linarith
  ultimately show ?thesis using True by (simp add: exponent_def)
next
  case False
  define d where "d = nat (- e)"
  have d: "0 < d" "e = - int d" using False by (simp_all add: d_def)
  have lo: "1 / 2 ^ d \<le> \<bar>x\<bar>" using assms(1) False by (simp add: pow2_def d_def)
  have hi: "\<bar>x\<bar> < 1 / 2 ^ (d - 1)"
  proof (cases "e + 1 = 0")
    case True
    then have "d = 1" by (simp add: d_def)
    then show ?thesis using assms(2) True by (simp add: pow2_def)
  next
    case F: False
    then have "nat (- (e + 1)) = d - 1" by (simp add: d_def)
    then show ?thesis using assms(2) False F by (simp add: pow2_def)
  qed
  have "(1::rat) / 2 ^ (d - 1) \<le> 1" by simp
  with hi have x1: "\<bar>x\<bar> < 1" by linarith
  have "(0::rat) < 1 / 2 ^ d" by simp
  with lo have x0: "0 < \<bar>x\<bar>" by linarith
  have "1 \<le> \<bar>x\<bar> * 2 ^ d" using lo by (simp add: field_simps)
  moreover have "(2::rat) ^ d = 2 * 2 ^ (d - 1)" using d(1) by (cases d) simp_all
  then have "\<bar>x\<bar> * 2 ^ d < 2" using hi by (simp add: field_simps)
  ultimately have "expo_down \<bar>x\<bar> = d" using x0 x1 by (intro expo_down_eq)
  then show ?thesis using x1 d by (simp add: exponent_def)
qed

text \<open>The integer that \<open>round_even\<close> finds is the nearest one, the even one at a tie.\<close>

lemma round_even_int: "round_even (of_int m) = m"
  by (simp add: round_even_def)

lemma round_even_eq:
  assumes "2 * \<bar>r - of_int m\<bar> < 1 \<or> 2 * \<bar>r - of_int m\<bar> = 1 \<and> even m"
  shows "round_even r = m"
proof -
  consider (lo) "of_int m \<le> r" "r < of_int m + 1 / 2"
    | (hi) "r < of_int m" "of_int m - 1 / 2 < r"
    | (tie_up) "r = of_int m + 1 / 2" "even m"
    | (tie_down) "r = of_int m - 1 / 2" "even m"
    using assms by (cases "of_int m \<le> r") (auto simp: abs_if split: if_splits)
  then show ?thesis
  proof cases
    case lo
    then have "\<lfloor>r\<rfloor> = m" by (intro floor_unique) simp_all
    then show ?thesis using lo by (simp add: round_even_def Let_def)
  next
    case hi
    then have "\<lfloor>r\<rfloor> = m - 1" by (intro floor_unique) simp_all
    then show ?thesis using hi by (simp add: round_even_def Let_def)
  next
    case tie_up
    then have "\<lfloor>r\<rfloor> = m" by (intro floor_unique) simp_all
    then show ?thesis using tie_up by (simp add: round_even_def Let_def)
  next
    case tie_down
    then have "\<lfloor>r\<rfloor> = m - 1" by (intro floor_unique) simp_all
    then show ?thesis using tie_down by (simp add: round_even_def Let_def)
  qed
qed

text \<open>
  The double nearest to a given rational, from its exponent \<open>e\<close> and its mantissa \<open>m\<close>:
  the side conditions are comparisons of numerals.
\<close>

lemma rnd_cert:
  assumes "pow2 e \<le> \<bar>x\<bar>" "\<bar>x\<bar> < pow2 (e + 1)" "- 1022 \<le> e"
      and "2 * \<bar>x - of_int m * pow2 (e - 52)\<bar> < pow2 (e - 52)
           \<or> 2 * \<bar>x - of_int m * pow2 (e - 52)\<bar> = pow2 (e - 52) \<and> even m"
      and "\<bar>of_int m * pow2 (e - 52)\<bar> < 2 ^ 1024"
  shows "rnd x = Fin (of_int m * pow2 (e - 52))"
proof -
  define u where "u = pow2 (e - 52)"
  have u: "0 < u" by (simp add: u_def pow2_pos)
  have "exponent x = e" using assms(1,2) by (rule exponent_eq)
  then have ulp: "ulp x = u" using assms(3) by (simp add: ulp_def u_def max_def)
  have "x / u - of_int m = (x - of_int m * u) / u" using u by (simp add: field_simps)
  then have "2 * \<bar>x / u - of_int m\<bar> = 2 * \<bar>x - of_int m * u\<bar> / u"
    using u by (simp add: abs_divide)
  then have "2 * \<bar>x / u - of_int m\<bar> < 1 \<or> 2 * \<bar>x / u - of_int m\<bar> = 1 \<and> even m"
    using assms(4) u by (auto simp add: u_def [symmetric] field_simps)
  then have "round_even (x / u) = m" by (rule round_even_eq)
  then have "fl x = of_int m * u" by (simp add: fl_def ulp)
  then show ?thesis using assms(5) by (simp add: rnd_def u_def Let_def)
qed

text \<open>A whole number up to \<open>2 ^ 53\<close> is a double.\<close>

lemma pow2_diff: "e \<le> 52 \<Longrightarrow> pow2 (int e - 52) = 1 / 2 ^ (52 - e)"
  by (simp add: pow2_def nat_diff_distrib')

lemma fl_int:
  assumes "\<bar>k\<bar> \<le> 2 ^ 53"
  shows "fl (of_int k) = of_int k"
proof (cases "k = 0")
  case True
  then show ?thesis
    by (simp add: fl_def ulp_def exponent_def expo_down.simps round_even_def)
next
  case False
  define x :: rat where "x = \<bar>of_int k\<bar>"
  define e where "e = expo_up x"
  have x1: "1 \<le> x" using False by (simp add: x_def)
  have xk: "x = of_int \<bar>k\<bar>" by (simp add: x_def)
  have "x \<le> 2 ^ 53" using assms unfolding xk by (metis of_int_le_iff of_int_numeral of_int_power)
  moreover from expo_up_bounds [OF x1] have b: "2 ^ e \<le> x" "x < 2 ^ (e + 1)" by (simp_all add: e_def)
  ultimately have "(2::rat) ^ e \<le> 2 ^ 53" by linarith
  then have e53: "e \<le> 53" by (rule power_le_imp_le_exp [rotated]) simp
  have ex: "exponent (of_int k) = int e" using x1 by (simp add: exponent_def e_def x_def)
  show ?thesis
  proof (cases "e = 53")
    case True
    with b \<open>x \<le> 2 ^ 53\<close> have "x = 2 ^ 53" by simp
    then have "\<bar>k\<bar> = 2 ^ 53" unfolding xk by (metis of_int_eq_iff of_int_numeral of_int_power)
    then have "k = 2 ^ 53 \<or> k = - (2 ^ 53)" by linarith
    then show ?thesis
    proof
      assume "k = 2 ^ 53"
      then show ?thesis using ex True
        by (simp add: fl_def ulp_def pow2_def round_even_def)
    next
      assume "k = - (2 ^ 53)"
      then show ?thesis using ex True
        by (simp add: fl_def ulp_def pow2_def round_even_def)
    qed
  next
    case False
    with e53 have e52: "e \<le> 52" by simp
    have u: "ulp (of_int k) = 1 / 2 ^ (52 - e)"
      using pow2_diff [OF e52] by (simp add: ulp_def ex max_def)
    have "rat_of_int k / (1 / 2 ^ (52 - e)) = of_int (k * 2 ^ (52 - e))" by simp
    then have "round_even (of_int k / ulp (of_int k)) = k * 2 ^ (52 - e)"
      unfolding u by (simp only: round_even_int)
    then show ?thesis unfolding fl_def by (simp add: u)
  qed
qed

lemma rnd_int: "\<bar>k\<bar> \<le> 2 ^ 53 \<Longrightarrow> rnd (of_int k) = Fin (of_int k)"
proof -
  assume a: "\<bar>k\<bar> \<le> 2 ^ 53"
  have "\<bar>rat_of_int k\<bar> = of_int \<bar>k\<bar>" by simp
  also have "\<dots> \<le> of_int (2 ^ 53)" using a by (simp only: of_int_le_iff)
  also have "\<dots> < 2 ^ 1024" by simp
  finally show ?thesis by (simp add: rnd_def fl_int [OF a])
qed

lemma rnd_0: "rnd 0 = Fin 0"
  using rnd_int [of 0] by simp

lemma rnd_1: "rnd 1 = Fin 1"
  using rnd_int [of 1] by simp

lemma rnd_neg_1: "rnd (- 1) = Fin (- 1)"
  using rnd_int [of "- 1"] by simp

lemma rnd_numeral: "(numeral k :: int) \<le> 2 ^ 53 \<Longrightarrow> rnd (numeral k) = Fin (numeral k)"
  using rnd_int [of "numeral k"] by simp

lemma rnd_neg_numeral: "(numeral k :: int) \<le> 2 ^ 53 \<Longrightarrow> rnd (- numeral k) = Fin (- numeral k)"
  using rnd_int [of "- numeral k"] by simp

lemmas rnd_whole = rnd_0 rnd_1 rnd_neg_1 rnd_numeral rnd_neg_numeral



text \<open>\<open>Math.round\<close> of a given rational.\<close>

lemma Math_round_cert:
  "of_int m \<le> x + 1 / 2 \<Longrightarrow> x + 1 / 2 < of_int m + 1 \<Longrightarrow> Math_round (Fin x) = Fin (of_int m)"
  by (simp add: Math_round.simps floor_unique)

section \<open>The per-bank balances\<close>

lemma fromEntries_BANKS:
  "fromEntries (map (\<lambda>b. (b, Num (Fin 0))) BANKS) = map (\<lambda>b. (b, Num (Fin 0))) BANKS"
  by (simp add: fromEntries_def BANKS_def)

lemma map_of_zero_BANKS:
  "map_of (map (\<lambda>b. (b, Num (Fin 0))) BANKS) b = (if b \<in> set BANKS then Some (Num (Fin 0)) else None)"
  by (simp add: map_of_map_restrict restrict_map_def)

lemma map_of_Some_key: "map_of al k = Some v \<Longrightarrow> k \<in> set (map fst al)"
  by (metis map_of_eq_None_iff option.distinct(1) set_map)

lemma map_of_set_property:
  "k \<noteq> b \<Longrightarrow> map_of (set_property k v ob) b = map_of ob b"
  by (simp add: set_property_def update_conv')

text \<open>A transaction changes no entry but the one of its bank.\<close>

lemma bankSummaries_loop_other:
  "\<forall>t \<in> set txs. tx_bank t \<noteq> b \<Longrightarrow> map_of (bankSummaries_loop txs bsums) b = map_of bsums b"
  by (induction txs arbitrary: bsums) (simp_all add: map_of_set_property)

text \<open>
  The entries of the configured banks stay the first seven of the object, and their
  values stay numbers: a new key is appended behind them.
\<close>

lemma bank_entries_step:
  assumes keys: "take (length BANKS) (map fst bsums) = BANKS"
      and nums: "\<forall>b \<in> set BANKS. \<exists>v. map_of bsums b = Some (Num v)"
  shows "take (length BANKS) (map fst (set_property k (js_plus (get_property k bsums) x) bsums)) = BANKS
         \<and> (\<forall>b \<in> set BANKS. \<exists>v. map_of (set_property k (js_plus (get_property k bsums) x) bsums) b = Some (Num v))"
proof (cases "map_of bsums k")
  case None
  then have k: "k \<notin> set BANKS" using nums by auto
  have "length (take (length BANKS) (map fst bsums)) = length BANKS"
    by (simp only: keys)
  then have "length BANKS \<le> length (map fst bsums)"
    by simp
  then have "take (length BANKS) (map fst bsums @ [k]) = BANKS"
    using keys by simp
  moreover have "k \<notin> set (map fst bsums)"
    using None by (simp add: map_of_eq_None_iff)
  ultimately have "take (length BANKS) (map fst (set_property k (js_plus (get_property k bsums) x) bsums)) = BANKS"
    using keys by (simp add: set_property_def update_keys)
  moreover have "\<forall>b \<in> set BANKS. map_of (set_property k (js_plus (get_property k bsums) x) bsums) b = map_of bsums b"
  proof
    fix b
    assume "b \<in> set BANKS"
    with k have "k \<noteq> b" by auto
    then show "map_of (set_property k (js_plus (get_property k bsums) x) bsums) b = map_of bsums b"
      by (rule map_of_set_property)
  qed
  ultimately show ?thesis using nums by simp
next
  case (Some v0)
  then have mem: "k \<in> set (map fst bsums)" by (rule map_of_Some_key)
  have set_eq: "set_property k v bsums = AList.update k v bsums" for v
    using Some by (simp add: set_property_def)
  have "take (length BANKS) (map fst (AList.update k (js_plus (get_property k bsums) x) bsums)) = BANKS"
    using keys mem by (simp add: update_keys)
  moreover have "\<exists>v. map_of (AList.update k (js_plus (get_property k bsums) x) bsums) b = Some (Num v)"
    if b: "b \<in> set BANKS" for b
  proof (cases "b = k")
    case True
    with b nums have "\<exists>v. map_of bsums k = Some (Num v)" by blast
    with Some obtain v where "v0 = Num v" by auto
    then show ?thesis using True Some by (simp add: update_conv' get_property_def)
  next
    case False
    then show ?thesis using b nums by (simp add: update_conv')
  qed
  ultimately show ?thesis by (simp add: set_eq)
qed

lemma bank_entries_loop:
  assumes "take (length BANKS) (map fst bsums) = BANKS"
      and "\<forall>b \<in> set BANKS. \<exists>v. map_of bsums b = Some (Num v)"
  shows "take (length BANKS) (map fst (bankSummaries_loop txs bsums)) = BANKS
         \<and> (\<forall>b \<in> set BANKS. \<exists>v. map_of (bankSummaries_loop txs bsums) b = Some (Num v))"
  using assms
proof (induction txs arbitrary: bsums)
  case Nil
  then show ?case by simp
next
  case (Cons t ts)
  show ?case
  proof (cases "has_property (tx_bank t) bsums")
    case False
    then show ?thesis using Cons.IH [OF Cons.prems] by simp
  next
    case True
    from bank_entries_step [OF Cons.prems, of "tx_bank t" "signed t"]
    show ?thesis using True Cons.IH [of "set_property (tx_bank t) (js_plus (get_property (tx_bank t) bsums) (signed t)) bsums"]
      by simp
  qed
qed

text \<open>
  Claim C10. The object of per-bank balances has an entry for every configured bank,
  whatever the transactions are: the value of the entry is a number, and the entries
  of the configured banks are the first entries of the object, in the order of
  \<open>BANKS\<close>. A bank that no transaction names has the balance 0. For the empty
  collection the object has the configured banks as its keys, each with the balance 0,
  and the bank snapshot of the report has one row per configured bank, in the order of
  \<open>BANKS\<close>, each with balance 0.
\<close>

theorem configured_banks_have_entries:
  "(\<forall>b \<in> set BANKS. \<exists>v. map_of (bankSummaries txs) b = Some (Num v))
   \<and> take (length BANKS) (map fst (bankSummaries txs)) = BANKS
   \<and> (\<forall>b \<in> set BANKS. (\<forall>t \<in> set txs. tx_bank t \<noteq> b) \<longrightarrow> map_of (bankSummaries txs) b = Some (Num (Fin 0)))
   \<and> bankSummaries [] = map (\<lambda>b. (b, Num (Fin 0))) BANKS
   \<and> bankArray (bankSummaries []) = map (\<lambda>b. \<lparr>row_bank = b, row_balance = Num (Fin 0)\<rparr>) BANKS
   \<and> length (bankArray (bankSummaries [])) = length BANKS"
proof -
  have init: "take (length BANKS) (map fst (map (\<lambda>b. (b, Num (Fin 0))) BANKS)) = BANKS"
    "\<forall>b \<in> set BANKS. \<exists>v. map_of (map (\<lambda>b. (b, Num (Fin 0))) BANKS) b = Some (Num v)"
    by (simp_all add: comp_def map_of_zero_BANKS)
  from bank_entries_loop [OF init, of txs]
  have "(\<forall>b \<in> set BANKS. \<exists>v. map_of (bankSummaries txs) b = Some (Num v))
        \<and> take (length BANKS) (map fst (bankSummaries txs)) = BANKS"
    by (simp add: bankSummaries_def fromEntries_BANKS)
  moreover have "\<forall>b \<in> set BANKS. (\<forall>t \<in> set txs. tx_bank t \<noteq> b) \<longrightarrow> map_of (bankSummaries txs) b = Some (Num (Fin 0))"
    by (simp add: bankSummaries_def bankSummaries_loop_other fromEntries_BANKS map_of_zero_BANKS)
  moreover have "bankSummaries [] = map (\<lambda>b. (b, Num (Fin 0))) BANKS"
    by (simp add: bankSummaries_def fromEntries_BANKS)
  ultimately show ?thesis
    by (simp add: bankArray_def comp_def)
qed

theorem configured_banks_have_entries_witness:
  "''ABL'' \<in> set BANKS
   \<and> list_all (\<lambda>t. tx_bank t \<noteq> ''ABL'')
         [\<lparr>tx_id = ''a'', tx_date = ''2024-01-01'', tx_type = Income, tx_description = [],
           tx_amount = Fin 100, tx_bank = ''constructor'', tx_category = ''Salary''\<rparr>]
   \<and> map_of (bankSummaries [\<lparr>tx_id = ''a'', tx_date = ''2024-01-01'', tx_type = Income,
        tx_description = [], tx_amount = Fin 100, tx_bank = ''constructor'', tx_category = ''Salary''\<rparr>]) ''ABL''
       = Some (Num (Fin 0))
   \<and> take (length BANKS) (map fst (bankSummaries [\<lparr>tx_id = ''a'', tx_date = ''2024-01-01'',
        tx_type = Income, tx_description = [], tx_amount = Fin 100, tx_bank = ''constructor'',
        tx_category = ''Salary''\<rparr>])) = BANKS
   \<and> length (bankArray (bankSummaries [])) = 7"
proof -
  let ?txs = "[\<lparr>tx_id = ''a'', tx_date = ''2024-01-01'', tx_type = Income, tx_description = [],
                tx_amount = Fin 100, tx_bank = ''constructor'', tx_category = ''Salary''\<rparr>]"
  from configured_banks_have_entries [of ?txs]
  have zero: "\<forall>b \<in> set BANKS. (\<forall>t \<in> set ?txs. tx_bank t \<noteq> b) \<longrightarrow> map_of (bankSummaries ?txs) b = Some (Num (Fin 0))"
    and keys: "take (length BANKS) (map fst (bankSummaries ?txs)) = BANKS"
    and rows: "length (bankArray (bankSummaries [])) = length BANKS"
    by blast+
  from zero have "map_of (bankSummaries ?txs) ''ABL'' = Some (Num (Fin 0))"
    by (simp add: BANKS_def)
  moreover from rows have "length (bankArray (bankSummaries [])) = 7"
    by (simp add: BANKS_def)
  moreover have "''ABL'' \<in> set BANKS"
    by (simp add: BANKS_def)
  ultimately show ?thesis
    using keys by simp
qed

text \<open>
  The own keys of the object are configured banks and names of inherited members, so the
  guard does skip a transaction whose bank is neither: the balances are those of the
  ledger without it. The grand totals do not read the bank of a transaction.
\<close>

lemma bankSummaries_loop_append:
  "bankSummaries_loop (xs @ ys) bsums = bankSummaries_loop ys (bankSummaries_loop xs bsums)"
  by (induction xs arbitrary: bsums) simp_all

lemma own_keys_step:
  "set (map fst (set_property k v ob)) \<subseteq> insert k (set (map fst ob))"
proof -
  have keys: "set (map fst (AList.update k v ob)) \<subseteq> insert k (set (map fst ob))"
    unfolding update_keys by (cases "k \<in> set (map fst ob)") auto
  have "(if c then ob else AList.update k v ob) = ob
      \<or> (if c then ob else AList.update k v ob) = AList.update k v ob" for c
    by simp
  then have "set_property k v ob = ob \<or> set_property k v ob = AList.update k v ob"
    unfolding set_property_def .
  then show ?thesis
  proof
    assume same: "set_property k v ob = ob"
    show ?thesis unfolding same by (rule subset_insertI)
  next
    assume upd: "set_property k v ob = AList.update k v ob"
    show ?thesis unfolding upd by (rule keys)
  qed
qed

lemma own_keys_loop:
  "set (map fst (bankSummaries_loop txs bsums)) \<subseteq> set (map fst bsums) \<union> set Object_prototype"
proof (induction txs arbitrary: bsums)
  case Nil
  show ?case by simp
next
  case (Cons t ts)
  show ?case
  proof (cases "has_property (tx_bank t) bsums")
    case False
    then show ?thesis using Cons.IH [of bsums] by simp
  next
    case True
    let ?ob = "set_property (tx_bank t) (js_plus (get_property (tx_bank t) bsums) (signed t)) bsums"
    have step: "bankSummaries_loop (t # ts) bsums = bankSummaries_loop ts ?ob"
      using True by simp
    have "set (map fst ?ob) \<subseteq> insert (tx_bank t) (set (map fst bsums))"
      by (rule own_keys_step)
    moreover have "tx_bank t \<in> set (map fst bsums) \<union> set Object_prototype"
      using True by (simp only: has_property_def Un_iff)
    moreover have "set (map fst (bankSummaries_loop ts ?ob)) \<subseteq> set (map fst ?ob) \<union> set Object_prototype"
      by (rule Cons.IH)
    ultimately have "set (map fst (bankSummaries_loop ts ?ob)) \<subseteq> set (map fst bsums) \<union> set Object_prototype"
      by blast
    then show ?thesis by (simp only: step)
  qed
qed

lemma foreign_bank_is_skipped:
  assumes "tx_bank t \<notin> set BANKS" "tx_bank t \<notin> set Object_prototype"
  shows "bankSummaries (xs @ t # ys) = bankSummaries (xs @ ys)"
proof -
  let ?init = "fromEntries (map (\<lambda>b. (b, Num (Fin 0))) BANKS)"
  have "set (map fst ?init) = set BANKS"
    by (simp add: fromEntries_BANKS comp_def)
  with own_keys_loop [of xs ?init]
  have "set (map fst (bankSummaries_loop xs ?init)) \<subseteq> set BANKS \<union> set Object_prototype"
    by (simp only:)
  with assms have "\<not> has_property (tx_bank t) (bankSummaries_loop xs ?init)"
    unfolding has_property_def by blast
  then show ?thesis
    by (simp add: bankSummaries_def bankSummaries_loop_append)
qed

lemma totals_loop_ignores_bank:
  "totals_loop (map (tx_bank_update f) txs) income expense = totals_loop txs income expense"
  by (induction txs arbitrary: income expense) simp_all

lemma totals_ignores_bank: "totals (map (tx_bank_update f) txs) = totals txs"
  by (simp add: totals_def totals_loop_ignores_bank)

text \<open>
  Claim C6. The guard \<open>t.bank in sums\<close> of \<open>bankSummaries\<close> does not exclude every
  transaction whose bank is outside the configured set: \<open>constructor\<close> is no configured
  bank, but it is the name of a member that the object inherits, so the guard lets the
  transaction pass and the assignment gives the object an eighth entry, which the bank
  snapshot of the report shows as an eighth row. Its value is the text of the
  inherited member followed by the decimal text of \<open>-5\<close>.
\<close>

theorem inherited_name_passes_the_bank_guard:
  "''constructor'' \<notin> set BANKS
   \<and> bankSummaries [\<lparr>tx_id = ''a'', tx_date = ''2024-01-01'', tx_type = Expense, tx_description = [],
                      tx_amount = Fin 5, tx_bank = ''constructor'', tx_category = ''Misc''\<rparr>]
       = map (\<lambda>b. (b, Num (Fin 0))) BANKS
           @ [(''constructor'', Str [Member ''constructor'', Digits (Fin (- 5))])]
   \<and> map row_bank (bankArray (bankSummaries
         [\<lparr>tx_id = ''a'', tx_date = ''2024-01-01'', tx_type = Expense, tx_description = [],
           tx_amount = Fin 5, tx_bank = ''constructor'', tx_category = ''Misc''\<rparr>]))
       = BANKS @ [''constructor'']"
  by (simp add: bankSummaries_def fromEntries_def BANKS_def has_property_def get_property_def
      set_property_def Object_prototype_def signed_def rnd_whole bankArray_def)

subsection \<open>The balances and the net\<close>


























section \<open>Reading and printing dates\<close>

lemma digit_SomeD: "digit c = Some v \<Longrightarrow> v < 10 \<and> digit_char v = c"
  by (auto simp: digit_def digit_char_def split: if_splits)

lemma number_of_digits2:
  "number_of_digits 0 [a, b] = Some n \<Longrightarrow>
     \<exists>x y. x < 10 \<and> y < 10 \<and> a = digit_char x \<and> b = digit_char y \<and> n = 10 * x + y"
  by (auto split: option.splits dest!: digit_SomeD)

lemma number_of_digits4:
  "number_of_digits 0 [a, b, c, d] = Some n \<Longrightarrow>
     \<exists>w x y z. w < 10 \<and> x < 10 \<and> y < 10 \<and> z < 10 \<and> a = digit_char w \<and> b = digit_char x
        \<and> c = digit_char y \<and> d = digit_char z \<and> n = 1000 * w + 100 * x + 10 * y + z"
  by (auto split: option.splits dest!: digit_SomeD)

lemma new_Date_SomeE:
  assumes "new_Date d = Some dt"
  obtains y1 y2 y3 y4 m1 m2 d1 d2 where
    "d = [digit_char y1, digit_char y2, digit_char y3, digit_char y4, CHR ''-'',
          digit_char m1, digit_char m2, CHR ''-'', digit_char d1, digit_char d2]"
    "y1 < 10" "y2 < 10" "y3 < 10" "y4 < 10" "m1 < 10" "m2 < 10" "d1 < 10" "d2 < 10"
    "getFullYear dt = 1000 * y1 + 100 * y2 + 10 * y3 + y4"
    "getMonth dt + 1 = 10 * m1 + m2" "getMonth dt < 12"
    "getDate dt = 10 * d1 + d2" "1 \<le> getDate dt" "getDate dt \<le> DaysInMonth (getFullYear dt) (getMonth dt)"
proof -
  from assms obtain a1 a2 a3 a4 h1 b1 b2 h2 c1 c2 where d: "d = [a1, a2, a3, a4, h1, b1, b2, h2, c1, c2]"
    by (cases d rule: new_Date.cases) simp_all
  from assms have h: "h1 = CHR ''-''" "h2 = CHR ''-''"
    unfolding d by (auto simp del: number_of_digits.simps split: if_splits)
  from assms obtain y m dd where
    y: "number_of_digits 0 [a1, a2, a3, a4] = Some y" and
    m: "number_of_digits 0 [b1, b2] = Some m" and
    dd: "number_of_digits 0 [c1, c2] = Some dd" and
    rng: "1 \<le> m" "m \<le> 12" "1 \<le> dd" "dd \<le> DaysInMonth y (m - 1)" and
    dt: "dt = \<lparr>getFullYear = y, getMonth = m - 1, getDate = dd\<rparr>"
    unfolding d by (auto simp del: number_of_digits.simps split: if_splits option.splits)
  from number_of_digits4 [OF y] number_of_digits2 [OF m] number_of_digits2 [OF dd]
  show ?thesis
    using that d h rng dt by auto
qed

lemma digit_char_mod: "digit_char (10 * a + b) = digit_char b"
  by (simp add: digit_char_def)

lemma String_nat_digit: "b < 10 \<Longrightarrow> String_nat b = [digit_char b]"
  by (subst String_nat.simps) simp

lemma String_nat_step:
  "1 \<le> a \<Longrightarrow> b < 10 \<Longrightarrow> String_nat (10 * a + b) = String_nat a @ [digit_char b]"
  by (subst String_nat.simps) (simp add: digit_char_mod)

lemma String_nat_4:
  assumes "1 \<le> y1" "y1 < 10" "y2 < 10" "y3 < 10" "y4 < 10"
  shows "String_nat (1000 * y1 + 100 * y2 + 10 * y3 + y4)
         = [digit_char y1, digit_char y2, digit_char y3, digit_char y4]"
proof -
  have e: "1000 * y1 + 100 * y2 + 10 * y3 + y4 = 10 * (10 * (10 * y1 + y2) + y3) + y4"
    by simp
  have a: "String_nat (10 * y1 + y2) = [digit_char y1, digit_char y2]"
    using assms by (simp add: String_nat_step String_nat_digit)
  have "String_nat (10 * (10 * y1 + y2) + y3) = String_nat (10 * y1 + y2) @ [digit_char y3]"
    by (rule String_nat_step) (use assms in simp_all)
  then have b: "String_nat (10 * (10 * y1 + y2) + y3) = [digit_char y1, digit_char y2, digit_char y3]"
    by (simp only: a append.simps)
  have "String_nat (10 * (10 * (10 * y1 + y2) + y3) + y4)
        = String_nat (10 * (10 * y1 + y2) + y3) @ [digit_char y4]"
    by (rule String_nat_step) (use assms in simp_all)
  then show ?thesis
    by (simp only: e b append.simps)
qed

lemma padStart_month:
  assumes "m1 < 10" "m2 < 10"
  shows "padStart 2 (CHR ''0'') (String_nat (10 * m1 + m2)) = [digit_char m1, digit_char m2]"
proof (cases "m1 = 0")
  case True
  then show ?thesis using assms by (simp add: String_nat_digit padStart_def digit_char_def)
next
  case False
  then show ?thesis using assms by (simp add: String_nat_step String_nat_digit padStart_def)
qed

lemma monthKey_take7:
  assumes "new_Date d = Some dt" and "1000 \<le> getFullYear dt"
  shows "monthKey d = take 7 d"
proof -
  from assms(1) obtain y1 y2 y3 y4 m1 m2 d1 d2 where
    d: "d = [digit_char y1, digit_char y2, digit_char y3, digit_char y4, CHR ''-'',
          digit_char m1, digit_char m2, CHR ''-'', digit_char d1, digit_char d2]"
    and lt: "y1 < 10" "y2 < 10" "y3 < 10" "y4 < 10" "m1 < 10" "m2 < 10"
    and y: "getFullYear dt = 1000 * y1 + 100 * y2 + 10 * y3 + y4"
    and m: "getMonth dt + 1 = 10 * m1 + m2"
    by (rule new_Date_SomeE)
  from assms(2) y lt have "1 \<le> y1" by simp
  then have "String_nat (getFullYear dt) = [digit_char y1, digit_char y2, digit_char y3, digit_char y4]"
    unfolding y using lt by (simp add: String_nat_4)
  moreover have "padStart 2 (CHR ''0'') (String_nat (getMonth dt + 1)) = [digit_char m1, digit_char m2]"
    unfolding m using lt by (simp add: padStart_month)
  ultimately show ?thesis
    by (simp add: monthKey_def assms(1)) (simp add: d)
qed

lemma pad_2: "pad 2 n = [digit_char (n div 10), digit_char n]"
proof -
  have "(2::nat) = Suc (Suc 0)" by simp
  then show ?thesis by (simp only: pad.simps) simp
qed

lemma pad_4:
  "pad 4 n = [digit_char (n div 10 div 10 div 10), digit_char (n div 10 div 10),
              digit_char (n div 10), digit_char n]"
proof -
  have "(4::nat) = Suc (Suc (Suc (Suc 0)))" by simp
  then show ?thesis by (simp only: pad.simps) simp
qed

lemma pad_6:
  "pad 6 n = [digit_char (n div 10 div 10 div 10 div 10 div 10),
              digit_char (n div 10 div 10 div 10 div 10), digit_char (n div 10 div 10 div 10),
              digit_char (n div 10 div 10), digit_char (n div 10), digit_char n]"
proof -
  have "(6::nat) = Suc (Suc (Suc (Suc (Suc (Suc 0)))))" by simp
  then show ?thesis by (simp only: pad.simps) simp
qed


lemma append_less_same_length:
  "length xs = length ys \<Longrightarrow> xs @ u < ys @ v \<longleftrightarrow> xs < ys \<or> xs = ys \<and> u < (v :: 'a::linorder list)"
proof (induction xs arbitrary: ys)
  case Nil
  then show ?case by simp
next
  case (Cons a xs)
  then obtain b ys' where ys: "ys = b # ys'" "length xs = length ys'"
    by (cases ys) auto
  show ?case using Cons.IH [OF ys(2)] by (auto simp: ys(1))
qed

lemma length_pad [simp]: "length (pad w n) = w"
  by (induction w arbitrary: n) simp_all

lemma of_char_digit_char: "of_char (digit_char n) = 48 + n mod 10"
proof -
  define k where "k = n mod 10"
  have "k < 10" by (simp add: k_def)
  then have "k = 0 \<or> k = 1 \<or> k = 2 \<or> k = 3 \<or> k = 4 \<or> k = 5 \<or> k = 6 \<or> k = 7 \<or> k = 8 \<or> k = 9"
    by arith
  then have "of_char (''0123456789'' ! k) = 48 + k"
    by (elim disjE) simp_all
  then show ?thesis
    by (simp add: digit_char_def k_def)
qed

lemma digit_char_less: "digit_char a < digit_char b \<longleftrightarrow> a mod 10 < b mod 10"
  by (simp add: less_char_def of_char_digit_char)

lemma digit_char_eq: "digit_char a = digit_char b \<longleftrightarrow> a mod 10 = b mod 10"
proof
  assume "digit_char a = digit_char b"
  then have "(of_char (digit_char a) :: nat) = of_char (digit_char b)" by simp
  then show "a mod 10 = b mod 10" by (simp add: of_char_digit_char)
next
  assume "a mod 10 = b mod 10"
  then show "digit_char a = digit_char b" by (simp add: digit_char_def)
qed

lemma less_by_parts:
  "ra < 10 \<Longrightarrow> rb < 10 \<Longrightarrow>
   (10 * qa + ra < 10 * qb + rb \<longleftrightarrow> qa < qb \<or> qa = qb \<and> ra < (rb::nat))"
  by arith

lemma less_by_digits:
  "(a::nat) < b \<longleftrightarrow> a div 10 < b div 10 \<or> a div 10 = b div 10 \<and> a mod 10 < b mod 10"
  using less_by_parts [of "a mod 10" "b mod 10" "a div 10" "b div 10"]
  by (simp only: mult_div_mod_eq)

lemma pad_less:
  "a < 10 ^ w \<Longrightarrow> b < 10 ^ w \<Longrightarrow> pad w a < pad w b \<longleftrightarrow> a < b"
proof (induction w arbitrary: a b)
  case 0
  then show ?case by simp
next
  case (Suc w)
  have a: "a div 10 < 10 ^ w" and b: "b div 10 < 10 ^ w"
    using Suc.prems by (simp_all add: less_mult_imp_div_less mult.commute)
  have "pad w (a div 10) \<noteq> pad w (b div 10) \<longleftrightarrow> a div 10 \<noteq> b div 10"
    unfolding neq_iff [of "pad w (a div 10)"] neq_iff [of "a div 10"]
    by (simp only: Suc.IH [OF a b] Suc.IH [OF b a])
  then have eq: "pad w (a div 10) = pad w (b div 10) \<longleftrightarrow> a div 10 = b div 10"
    by blast
  have "pad (Suc w) a < pad (Suc w) b \<longleftrightarrow>
        a div 10 < b div 10 \<or> a div 10 = b div 10 \<and> a mod 10 < b mod 10"
    by (simp add: append_less_same_length Suc.IH [OF a b] eq digit_char_less)
  then show ?case
    by (simp only: less_by_digits [of a b])
qed

lemma iso10:
  "getFullYear a \<le> 9999 \<Longrightarrow>
   take 10 (toISOString a)
     = pad 4 (getFullYear a) @ CHR ''-'' # pad 2 (getMonth a + 1) @ CHR ''-'' # pad 2 (getDate a)"
  by (simp add: toISOString_def)

lemma pad_step: "b < 10 \<Longrightarrow> pad (Suc w) (10 * a + b) = pad w a @ [digit_char b]"
  by (simp add: digit_char_mod)

lemma pad_2_digits:
  assumes "a < 10" "b < 10"
  shows "pad 2 (10 * a + b) = [digit_char a, digit_char b]"
proof -
  have "pad (Suc (Suc 0)) (10 * a + b) = pad (Suc 0) a @ [digit_char b]"
    using assms(2) by (rule pad_step)
  then show ?thesis
    by (simp add: numeral_2_eq_2)
qed

lemma pad_4_digits:
  assumes "a < 10" "b < 10" "c < 10" "d < 10"
  shows "pad 4 (1000 * a + 100 * b + 10 * c + d) = [digit_char a, digit_char b, digit_char c, digit_char d]"
proof -
  have e: "1000 * a + 100 * b + 10 * c + d = 10 * (10 * (10 * a + b) + c) + d"
    by simp
  have four: "(4::nat) = Suc (Suc (Suc (Suc 0)))" by simp
  have "pad (Suc (Suc (Suc (Suc 0)))) (10 * (10 * (10 * a + b) + c) + d)
        = pad (Suc (Suc (Suc 0))) (10 * (10 * a + b) + c) @ [digit_char d]"
    using assms(4) by (rule pad_step)
  also have "pad (Suc (Suc (Suc 0))) (10 * (10 * a + b) + c) = pad (Suc (Suc 0)) (10 * a + b) @ [digit_char c]"
    using assms(3) by (rule pad_step)
  also have "pad (Suc (Suc 0)) (10 * a + b) = pad (Suc 0) a @ [digit_char b]"
    using assms(2) by (rule pad_step)
  also have "pad (Suc 0) a = [digit_char a]"
    by simp
  finally show ?thesis
    by (simp only: e four append.simps)
qed

lemma pad_eq:
  assumes "a < 10 ^ w" "b < 10 ^ w"
  shows "pad w a = pad w b \<longleftrightarrow> a = b"
proof -
  have "pad w a \<noteq> pad w b \<longleftrightarrow> a \<noteq> b"
    unfolding neq_iff [of "pad w a"] neq_iff [of a]
    by (simp only: pad_less [OF assms] pad_less [OF assms(2,1)])
  then show ?thesis by blast
qed

text \<open>Printing the date that a string denotes gives the string back.\<close>

lemma new_Date_toISOString:
  assumes "new_Date d = Some dt"
  shows "take 10 (toISOString dt) = d"
proof -
  from assms obtain y1 y2 y3 y4 m1 m2 d1 d2 where
    d: "d = [digit_char y1, digit_char y2, digit_char y3, digit_char y4, CHR ''-'',
          digit_char m1, digit_char m2, CHR ''-'', digit_char d1, digit_char d2]"
    and lt: "y1 < 10" "y2 < 10" "y3 < 10" "y4 < 10" "m1 < 10" "m2 < 10" "d1 < 10" "d2 < 10"
    and y: "getFullYear dt = 1000 * y1 + 100 * y2 + 10 * y3 + y4"
    and m: "getMonth dt + 1 = 10 * m1 + m2"
    and dd: "getDate dt = 10 * d1 + d2"
    by (rule new_Date_SomeE)
  have "getFullYear dt \<le> 9999"
    unfolding y using lt by linarith
  then have "take 10 (toISOString dt)
      = pad 4 (getFullYear dt) @ CHR ''-'' # pad 2 (getMonth dt + 1) @ CHR ''-'' # pad 2 (getDate dt)"
    by (rule iso10)
  also have "\<dots> = d"
    unfolding y m dd d using lt by (simp only: pad_4_digits pad_2_digits) simp
  finally show ?thesis .
qed

lemma monthKey_less:
  assumes "new_Date d = Some dt" and "1000 \<le> getFullYear dt"
    and "new_Date d' = Some dt'" and "1000 \<le> getFullYear dt'"
  shows "monthKey d < monthKey d' \<longleftrightarrow>
     getFullYear dt < getFullYear dt'
     \<or> getFullYear dt = getFullYear dt' \<and> getMonth dt < getMonth dt'"
proof -
  have key: "monthKey x = pad 4 (getFullYear xt) @ CHR ''-'' # pad 2 (Suc (getMonth xt))
         \<and> getFullYear xt < 10 ^ 4 \<and> Suc (getMonth xt) < 10 ^ 2"
    if x: "new_Date x = Some xt" and big: "1000 \<le> getFullYear xt" for x xt
  proof -
    from x have mo: "getMonth xt < 12" and yr: "getFullYear xt \<le> 9999"
      by (elim new_Date_SomeE, simp, elim new_Date_SomeE, linarith)
    have "monthKey x = take 7 (take 10 (toISOString xt))"
      by (simp only: monthKey_take7 [OF x big] new_Date_toISOString [OF x])
    also have "\<dots> = pad 4 (getFullYear xt) @ CHR ''-'' # pad 2 (Suc (getMonth xt))"
      using yr by (simp add: iso10)
    finally show ?thesis using mo yr by simp
  qed
  from key [OF assms(1,2)] key [OF assms(3,4)]
  have k: "monthKey d = pad 4 (getFullYear dt) @ CHR ''-'' # pad 2 (Suc (getMonth dt))"
       "monthKey d' = pad 4 (getFullYear dt') @ CHR ''-'' # pad 2 (Suc (getMonth dt'))"
    and b: "getFullYear dt < 10 ^ 4" "getFullYear dt' < 10 ^ 4"
           "Suc (getMonth dt) < 10 ^ 2" "Suc (getMonth dt') < 10 ^ 2"
    by simp_all
  show ?thesis
    unfolding k
    by (simp add: append_less_same_length pad_less [OF b(1,2)] pad_less [OF b(3,4)]
        pad_eq [OF b(1,2)])
qed

section \<open>The schedule generator\<close>

lemma setMonth_due:
  "setMonth d0 (getMonth d0 + k + 1) = TimeClip (due d0 k)"
  "setMonth d0 (Suc (getMonth d0 + k)) = TimeClip (due d0 k)"
  by (simp_all add: setMonth_def due_def)

lemma generateSchedule_loop_done:
  "count \<le> int i \<Longrightarrow> generateSchedule_loop uid s per count i list = Inr list"
  by (subst generateSchedule_loop.simps) simp

text \<open>The loop returns what it pushed when every due date is within the range of \<open>Date\<close>.\<close>

lemma generateSchedule_loop_eq:
  assumes "\<forall>j. i \<le> j \<and> int j < count \<longrightarrow> TimeClip (due d0 j) = Some (due d0 j)"
  shows "generateSchedule_loop uid (Some d0) per count i list =
     Inr (list @ map (mk_installment uid d0 per) [i ..< nat count])"
  using assms
proof (induction uid "Some d0" per count i list rule: generateSchedule_loop.induct)
  case (1 uid per count i list)
  show ?case
  proof (cases "int i < count")
    case True
    then have "[i ..< nat count] = i # [Suc i ..< nat count]"
      by (simp add: upt_conv_Cons)
    moreover have clip: "TimeClip (due d0 i) = Some (due d0 i)"
      using True 1(2) by simp
    moreover have "\<forall>j. i + 1 \<le> j \<and> int j < count \<longrightarrow> TimeClip (due d0 j) = Some (due d0 j)"
      using 1(2) by simp
    ultimately show ?thesis
      using True 1(1) [of "due d0 i"]
      by (subst generateSchedule_loop.simps) (simp add: mk_installment_def setMonth_due)
  next
    case False
    then show ?thesis
      by (subst generateSchedule_loop.simps) simp
  qed
qed



text \<open>The day that \<open>MakeDay\<close> reaches: in the month asked for, or run over into the next.\<close>

lemma DaysInMonth_bounds: "28 \<le> DaysInMonth y m" "DaysInMonth y m \<le> 31"
  by (simp_all add: DaysInMonth_def)

lemma MakeDay_within: "d \<le> DaysInMonth y m \<Longrightarrow> MakeDay y m d = \<lparr>getFullYear = y, getMonth = m, getDate = d\<rparr>"
  by (subst MakeDay.simps) simp

lemma MakeDay_over:
  assumes "DaysInMonth y m < d" and "d \<le> 31"
  shows "MakeDay y m d =
     (if m = 11 then \<lparr>getFullYear = y + 1, getMonth = 0, getDate = d - DaysInMonth y m\<rparr>
      else \<lparr>getFullYear = y, getMonth = m + 1, getDate = d - DaysInMonth y m\<rparr>)"
proof -
  have "d - DaysInMonth y m \<le> 3"
    using assms(2) DaysInMonth_bounds(1) [of y m] by simp
  then have fits: "d - DaysInMonth y m \<le> DaysInMonth y' m'" for y' m'
    using DaysInMonth_bounds(1) [of y' m'] by simp
  have "MakeDay y m d =
     (if m = 11 then MakeDay (y + 1) 0 (d - DaysInMonth y m)
      else MakeDay y (m + 1) (d - DaysInMonth y m))"
    using assms(1) by (subst MakeDay.simps) simp
  then show ?thesis
    by (simp only: MakeDay_within [OF fits])
qed

lemma due_short_day:
  "getDate d0 \<le> 28 \<Longrightarrow>
   due d0 k = \<lparr>getFullYear = getFullYear d0 + (getMonth d0 + k + 1) div 12,
               getMonth = (getMonth d0 + k + 1) mod 12, getDate = getDate d0\<rparr>"
  unfolding due_def
  using DaysInMonth_bounds(1) [of "getFullYear d0 + (getMonth d0 + k + 1) div 12" "(getMonth d0 + k + 1) mod 12"]
  by (intro MakeDay_within) simp

text \<open>The month reached, counted in months from year 0, and the day, with and without run-over.\<close>

lemma due_cases:
  fixes d0 :: civil and k :: nat
  assumes "getDate d0 \<le> 31"
  defines "r \<equiv> due d0 k"
  shows "getMonth r < 12 \<and>
     (12 * getFullYear r + getMonth r = 12 * getFullYear d0 + getMonth d0 + k + 1 \<and> getDate r = getDate d0
      \<or> 12 * getFullYear r + getMonth r = 12 * getFullYear d0 + getMonth d0 + k + 2
          \<and> getDate r < getDate d0 \<and> getDate r \<le> 3 \<and> 28 < getDate d0)"
proof -
  define q m where "q = (getMonth d0 + k + 1) div 12" and "m = (getMonth d0 + k + 1) mod 12"
  have k: "getMonth d0 + k + 1 = 12 * q + m" and m: "m < 12"
    by (simp_all add: q_def m_def)
  define dim where "dim = DaysInMonth (getFullYear d0 + q) m"
  have r: "r = MakeDay (getFullYear d0 + q) m (getDate d0)"
    by (simp add: r_def due_def q_def m_def)
  show ?thesis
  proof (cases "getDate d0 \<le> dim")
    case True
    then have "r = \<lparr>getFullYear = getFullYear d0 + q, getMonth = m, getDate = getDate d0\<rparr>"
      unfolding r dim_def by (rule MakeDay_within)
    then show ?thesis using k m by simp
  next
    case False
    then have over: "dim < getDate d0" by simp
    have r': "r = (if m = 11
         then \<lparr>getFullYear = getFullYear d0 + q + 1, getMonth = 0, getDate = getDate d0 - dim\<rparr>
         else \<lparr>getFullYear = getFullYear d0 + q, getMonth = m + 1, getDate = getDate d0 - dim\<rparr>)"
      unfolding r using MakeDay_over [OF over [unfolded dim_def] assms(1)] by (simp add: dim_def)
    have "28 \<le> dim" unfolding dim_def by (rule DaysInMonth_bounds)
    then have d: "getDate d0 - dim < getDate d0" "getDate d0 - dim \<le> 3" "28 < getDate d0"
      using over assms(1) by simp_all
    show ?thesis
    proof (cases "m = 11")
      case True
      then show ?thesis using r' d k by simp
    next
      case False
      then have "m + 1 < 12" using m by simp
      then show ?thesis using False r' d k by simp
    qed
  qed
qed

lemma new_Date_day: "new_Date start = Some d0 \<Longrightarrow> getDate d0 \<le> 31"
  using DaysInMonth_bounds(2) [of "getFullYear d0" "getMonth d0"]
  by (elim new_Date_SomeE) simp

text \<open>A due month before the year 275760 is within the range of \<open>Date\<close>.\<close>

lemma due_in_range:
  assumes "getDate d0 \<le> 31" "12 * getFullYear d0 + getMonth d0 + k + 1 < 12 * 275760"
  shows "TimeClip (due d0 k) = Some (due d0 k)"
proof -
  from due_cases [OF assms(1), of k] assms(2)
  have "12 * getFullYear (due d0 k) + getMonth (due d0 k) \<le> 12 * 275760"
    by linarith
  then have "getFullYear (due d0 k) < 275760
      \<or> getFullYear (due d0 k) = 275760 \<and> getMonth (due d0 k) = 0"
    by linarith
  then show ?thesis by (auto simp: TimeClip_def date_less_def)
qed

lemma foldl_amount:
  "foldl (\<lambda>s x. num_add s (inst_amount x)) a xs = foldl num_add a (map inst_amount xs)"
  by (induction xs arbitrary: a) simp_all

text \<open>
  The schedule in closed form, for a count of at least one, a valid start date and due
  months before the year 275760: every installment but the last is the one the loop
  pushed, and the last has the amount of the rounding fix.
\<close>

lemma generateSchedule_valid:
  assumes "1 \<le> n" and "new_Date start = Some d0"
      and "12 * getFullYear d0 + getMonth d0 + nat n < 12 * 275760"
  shows "generateSchedule uid p start n =
     Inr (map (mk_installment uid d0 (per_amount p n)) [0 ..< nat n - 1]
          @ [(mk_installment uid d0 (per_amount p n) (nat n - 1))\<lparr>inst_amount := last_amount p n\<rparr>])"
proof -
  define per where "per = per_amount p n"
  define xs where "xs = map (mk_installment uid d0 per) [0 ..< nat n - 1]"
  define x where "x = mk_installment uid d0 per (nat n - 1)"
  have "nat n = Suc (nat n - 1)"
    using assms(1) by simp
  then have "[0 ..< nat n] = [0 ..< nat n - 1] @ [nat n - 1]"
    by (metis upt_Suc_append zero_le)
  then have all: "map (mk_installment uid d0 per) [0 ..< nat n] = xs @ [x]"
    by (simp add: xs_def x_def)
  have "\<forall>j. 0 \<le> j \<and> int j < n \<longrightarrow> TimeClip (due d0 j) = Some (due d0 j)"
    using assms(3) new_Date_day [OF assms(2)] by (auto intro!: due_in_range)
  then have loop: "generateSchedule_loop uid (Some d0) per n 0 [] = Inr (xs @ [x])"
    by (simp add: generateSchedule_loop_eq all)
  have "map inst_amount (map (mk_installment uid d0 per) [0 ..< nat n]) = replicate (nat n) per"
    by (simp add: mk_installment_def comp_def map_replicate_const)
  then have amounts: "map inst_amount (xs @ [x]) = replicate (nat n) per"
    by (simp only: all)
  have px: "inst_amount x = per"
    by (simp add: x_def mk_installment_def)
  have "generateSchedule uid p start n =
      Inr ((xs @ [x])[length (xs @ [x]) - 1 :=
             ((xs @ [x]) ! (length (xs @ [x]) - 1))
               \<lparr>inst_amount := num_div (Math_round (num_mul
                  (num_add (inst_amount ((xs @ [x]) ! (length (xs @ [x]) - 1)))
                     (num_sub p (foldl num_add (Fin 0) (replicate (nat n) per)))) (Fin 100))) (Fin 100)\<rparr>])"
    unfolding generateSchedule_def Let_def
    by (simp only: assms(2) per_amount_def [symmetric] per_def [symmetric] loop foldl_amount amounts sum.case)
       simp
  also have "\<dots> = Inr (xs @ [x\<lparr>inst_amount := last_amount p n\<rparr>])"
    by (simp add: px last_amount_def per_def Let_def)
  finally show ?thesis
    unfolding xs_def x_def per_def .
qed

lemma new_Date_2024_01_15:
  "new_Date ''2024-01-15'' = Some \<lparr>getFullYear = 2024, getMonth = 0, getDate = 15\<rparr>"
  by (simp add: digit_def DaysInMonth_def leap_def)

lemma new_Date_2024_01_31:
  "new_Date ''2024-01-31'' = Some \<lparr>getFullYear = 2024, getMonth = 0, getDate = 31\<rparr>"
  by (simp add: digit_def DaysInMonth_def leap_def)

subsection \<open>The amounts\<close>

text \<open>
  The doubles that the generator computes for a principal of 45035996273704.97 in 7
  installments: the quotient, the amount of each round, the sums of the amounts and
  the amount of the last installment.
\<close>

lemma big_1: "rnd (4503599627370497 / 100) = Fin (1441151880758559 / 32)"
  using rnd_cert [where x = "4503599627370497 / 100" and e = "45" and m = "5764607523034236"]
  by (simp add: pow2_def)

lemma big_2: "rnd (1441151880758559 / 224) = Fin (3294061441733849 / 512)"
  using rnd_cert [where x = "1441151880758559 / 224" and e = "42" and m = "6588122883467698"]
  by (simp add: pow2_def)

lemma big_3: "rnd (82351536043346225 / 128) = Fin (5146971002709139 / 8)"
  using rnd_cert [where x = "82351536043346225 / 128" and e = "49" and m = "5146971002709139"]
  by (simp add: pow2_def)

lemma big_4: "rnd (321685687669321 / 50) = Fin (3294061441733847 / 512)"
  using rnd_cert [where x = "321685687669321 / 50" and e = "42" and m = "6588122883467694"]
  by (simp add: pow2_def)

lemma big_5: "rnd (3294061441733847 / 512) = Fin (3294061441733847 / 512)"
  using rnd_cert [where x = "3294061441733847 / 512" and e = "42" and m = "6588122883467694"]
  by (simp add: pow2_def)

lemma big_6: "rnd (3294061441733847 / 256) = Fin (3294061441733847 / 256)"
  using rnd_cert [where x = "3294061441733847 / 256" and e = "43" and m = "6588122883467694"]
  by (simp add: pow2_def)

lemma big_7: "rnd (9882184325201541 / 512) = Fin (2470546081300385 / 128)"
  using rnd_cert [where x = "9882184325201541 / 512" and e = "44" and m = "4941092162600770"]
  by (simp add: pow2_def)

lemma big_8: "rnd (13176245766935387 / 512) = Fin (3294061441733847 / 128)"
  using rnd_cert [where x = "13176245766935387 / 512" and e = "44" and m = "6588122883467694"]
  by (simp add: pow2_def)

lemma big_9: "rnd (16470307208669235 / 512) = Fin (4117576802167309 / 128)"
  using rnd_cert [where x = "16470307208669235 / 512" and e = "44" and m = "8235153604334618"]
  by (simp add: pow2_def)

lemma big_10: "rnd (19764368650403083 / 512) = Fin (4941092162600771 / 128)"
  using rnd_cert [where x = "19764368650403083 / 512" and e = "45" and m = "4941092162600771"]
  by (simp add: pow2_def)

lemma big_11: "rnd (23058430092136931 / 512) = Fin (5764607523034233 / 128)"
  using rnd_cert [where x = "23058430092136931 / 512" and e = "45" and m = "5764607523034233"]
  by (simp add: pow2_def)

lemma big_12: "rnd (3 / 128) = Fin (3 / 128)"
  using rnd_cert [where x = "3 / 128" and e = "- 6" and m = "6755399441055744"]
  by (simp add: pow2_def)

lemma big_13: "rnd (3294061441733859 / 512) = Fin (3294061441733859 / 512)"
  using rnd_cert [where x = "3294061441733859 / 512" and e = "42" and m = "6588122883467718"]
  by (simp add: pow2_def)

lemma big_14: "rnd (82351536043346475 / 128) = Fin (5146971002709155 / 8)"
  using rnd_cert [where x = "82351536043346475 / 128" and e = "49" and m = "5146971002709155"]
  by (simp add: pow2_def)

lemma big_15: "rnd (160842843834661 / 25) = Fin (6588122883467715 / 1024)"
  using rnd_cert [where x = "160842843834661 / 25" and e = "42" and m = "6588122883467715"]
  by (simp add: pow2_def)

lemma big_round_1: "Math_round (Fin (5146971002709139 / 8)) = Fin 643371375338642"
  using Math_round_cert [where x = "5146971002709139 / 8" and m = "643371375338642"]
  by simp

lemma big_round_2: "Math_round (Fin (5146971002709155 / 8)) = Fin 643371375338644"
  using Math_round_cert [where x = "5146971002709155 / 8" and m = "643371375338644"]
  by simp

lemmas big_values = big_1 big_2 big_3 big_4 big_5 big_6 big_7 big_8 big_9 big_10 big_11 big_12 big_13 big_14 big_15 big_round_1 big_round_2

lemma per_amount_big: "per_amount (literal (4503599627370497 / 100)) 7 = literal (643371375338642 / 100)"
  by (simp add: per_amount_def literal_def big_values)

lemma last_amount_big: "last_amount (literal (4503599627370497 / 100)) 7 = literal (643371375338644 / 100)"
  by (simp add: last_amount_def per_amount_big eval_nat_numeral)
     (simp add: literal_def big_values)

text \<open>
  Claim C1 says that the amounts of every schedule add up to the principal. The
  generator's rounding fix is there to make them do so, but it works in doubles and
  misses for a large principal. For the principal 45035996273704.97 in 7 installments
  the generator returns six amounts of 6433713753386.42 and a last amount of
  6433713753386.44, which add up to 45035996273704.96: one minor unit less than the
  principal. Each decimal stands for the double nearest to it; the seven doubles add
  up to \<open>9 / 1024\<close> less than the double of the principal, which is more than half a
  minor unit.
\<close>

theorem rounding_fix_misses_the_total:
  "literal (4503599627370497 / 100) = Fin (1441151880758559 / 32)
   \<and> literal (643371375338642 / 100) = Fin (3294061441733847 / 512)
   \<and> literal (643371375338644 / 100) = Fin (6588122883467715 / 1024)
   \<and> (\<exists>sch. generateSchedule uid (literal (4503599627370497 / 100)) ''2024-01-15'' 7 = Inr sch
          \<and> map inst_amount sch
              = replicate 6 (literal (643371375338642 / 100)) @ [literal (643371375338644 / 100)])
   \<and> 6 * (3294061441733847 / 512) + 6588122883467715 / 1024 - 1441151880758559 / 32
       = (- (9 / 1024) :: rat)
   \<and> 6 * 643371375338642 + 643371375338644 = (4503599627370497 - 1 :: int)"
proof -
  have n: "(1::int) \<le> 7" by simp
  have range: "12 * getFullYear \<lparr>getFullYear = 2024, getMonth = 0, getDate = 15\<rparr>
      + getMonth \<lparr>getFullYear = 2024, getMonth = 0, getDate = 15\<rparr> + nat 7 < 12 * 275760"
    by simp
  have "map inst_amount
      (map (mk_installment uid \<lparr>getFullYear = 2024, getMonth = 0, getDate = 15\<rparr>
              (per_amount (literal (4503599627370497 / 100)) 7)) [0 ..< nat 7 - 1])
      = replicate 6 (literal (643371375338642 / 100))"
    by (simp add: mk_installment_def comp_def map_replicate_const per_amount_big)
  then have "\<exists>sch. generateSchedule uid (literal (4503599627370497 / 100)) ''2024-01-15'' 7 = Inr sch
          \<and> map inst_amount sch
              = replicate 6 (literal (643371375338642 / 100)) @ [literal (643371375338644 / 100)]"
    unfolding generateSchedule_valid [OF n new_Date_2024_01_15 range]
    by (simp add: last_amount_big)
  moreover have "literal (4503599627370497 / 100) = Fin (1441151880758559 / 32)"
    "literal (643371375338642 / 100) = Fin (3294061441733847 / 512)"
    "literal (643371375338644 / 100) = Fin (6588122883467715 / 1024)"
    by (simp_all add: literal_def big_values)
  ultimately show ?thesis by simp
qed

subsection \<open>The length of a schedule\<close>




section \<open>Invalid installment counts\<close>

text \<open>
  Claim C7 says that a count \<open>\<le> 0\<close> is signalled to the caller by a descriptive error and
  that an invalid count is never silently turned into zero. \<open>createLoan\<close>, the caller of
  the generator, does the opposite for a blank count: it creates the loan without any
  error, with the count 0 and an empty schedule.
\<close>

theorem blank_count_becomes_zero:
  "createLoan String_nat LoansTaken
        \<lparr>f_person = ''Ali'', f_amount = Some (Fin 1000), f_startDate = ''2024-01-15'', f_dueDate = [],
         f_installments = None, f_notes = []\<rparr>
        \<lparr>transactions = [], loansTaken = [], loansGiven = []\<rparr>
      = Inr \<lparr>transactions = [],
             loansTaken = [\<lparr>loan_id = ''0'', loan_person = ''Ali'', loan_amount = Fin 1000,
               loan_startDate = ''2024-01-15'', loan_dueDate = None, loan_installments = 0,
               loan_notes = [], loan_schedule = []\<rparr>],
             loansGiven = []\<rparr>"
  by (simp add: createLoan_def Number_input_def or_zero_def addLoan_def String_nat.simps digit_char_def)

text \<open>
  Claim C7, amended. \<open>createLoan\<close> never calls the generator with a count \<open>\<le> 0\<close>: when
  person and amount are given and the count is blank, zero or negative, it adds the loan
  with an empty schedule and without any error, the blank count being the number 0.
  The generator itself, called with a count \<open>\<le> 0\<close>, returns no schedule: it throws a
  \<open>TypeError\<close>, whatever the principal and the start date are.
\<close>

theorem nonpositive_count_policy:
  "(count \<le> 0 \<longrightarrow> generateSchedule uid p start count = Inl TypeError)
   \<and> (f_person form \<noteq> [] \<and> f_amount form = Some a \<and> Number_input (f_installments form) \<le> 0 \<longrightarrow>
        createLoan uid k form prev =
          Inr (addLoan (uid 0) k
                 \<lparr>loan_id = [], loan_person = f_person form, loan_amount = a,
                  loan_startDate = f_startDate form,
                  loan_dueDate = (if f_dueDate form = [] then None else Some (f_dueDate form)),
                  loan_installments = Number_input (f_installments form),
                  loan_notes = f_notes form, loan_schedule = []\<rparr> prev))
   \<and> (f_installments form = None \<longrightarrow> Number_input (f_installments form) = 0)"
  by (simp add: generateSchedule_def generateSchedule_loop_done createLoan_def Number_input_def or_zero_def)

theorem nonpositive_count_policy_witness:
  "generateSchedule String_nat (Fin 1000) ''2024-01-15'' 0 = Inl TypeError
   \<and> createLoan String_nat LoansTaken
        \<lparr>f_person = ''Ali'', f_amount = Some (Fin 1000), f_startDate = ''2024-01-15'', f_dueDate = [],
         f_installments = Some (- 2), f_notes = []\<rparr>
        \<lparr>transactions = [], loansTaken = [], loansGiven = []\<rparr>
      = Inr \<lparr>transactions = [],
             loansTaken = [\<lparr>loan_id = ''0'', loan_person = ''Ali'', loan_amount = Fin 1000,
               loan_startDate = ''2024-01-15'', loan_dueDate = None, loan_installments = - 2,
               loan_notes = [], loan_schedule = []\<rparr>],
             loansGiven = []\<rparr>"
  using nonpositive_count_policy [of 0 String_nat "Fin 1000" "''2024-01-15''"
      "\<lparr>f_person = ''Ali'', f_amount = Some (Fin 1000), f_startDate = ''2024-01-15'', f_dueDate = [],
         f_installments = Some (- 2), f_notes = []\<rparr>" "Fin 1000" LoansTaken
      "\<lparr>transactions = [], loansTaken = [], loansGiven = []\<rparr>"]
  by (simp add: Number_input_def addLoan_def String_nat.simps digit_char_def)

section \<open>Toggling an installment\<close>

lemma get_set_loans [simp]: "get_loans k (set_loans k ls d) = ls"
  by (cases k) simp_all

lemma get_set_other [simp]: "get_loans (other_kind k) (set_loans k ls d) = get_loans (other_kind k) d"
  by (cases k) (simp_all add: other_kind_def)

lemma transactions_set_loans [simp]: "transactions (set_loans k ls d) = transactions d"
  by (cases k) simp_all

text \<open>
  Claim C9. Let \<open>next\<close> be the state after toggling installment \<open>instId\<close> of loan \<open>loanId\<close>
  in the collection \<open>k\<close>, and \<open>again\<close> the state after toggling it once more. The
  transactions and the other loan collection are unchanged, and the collection \<open>k\<close>
  keeps its length. A loan with another id is unchanged; a loan with the id \<open>loanId\<close>
  changes in its schedule only, which keeps its length. In that schedule an
  installment with another id is unchanged; an unpaid installment with the id \<open>instId\<close>
  becomes paid with the current date as its paid date, a paid one becomes unpaid with
  no paid date, and nothing else of it changes; after the second toggle the installment
  that was unpaid is unpaid again, with no paid date.
\<close>

theorem toggleInstallment_frame:
  fixes prev :: db and today :: string and k :: kind and loanId instId :: ident
  defines "next \<equiv> toggleInstallment today k loanId instId prev"
  defines "again \<equiv> toggleInstallment today k loanId instId next"
  shows "length (get_loans k next) = length (get_loans k prev)
    \<and> get_loans (other_kind k) next = get_loans (other_kind k) prev
    \<and> transactions next = transactions prev
    \<and> (\<forall>i < length (get_loans k prev).
          let l = get_loans k prev ! i; l' = get_loans k next ! i in
            (loan_id l \<noteq> loanId \<longrightarrow> l' = l)
          \<and> l' = l\<lparr>loan_schedule := loan_schedule l'\<rparr>
          \<and> length (loan_schedule l') = length (loan_schedule l)
          \<and> (loan_id l = loanId \<longrightarrow>
               (\<forall>j < length (loan_schedule l).
                  let s = loan_schedule l ! j; s' = loan_schedule l' ! j in
                    (inst_id s \<noteq> instId \<longrightarrow> s' = s)
                  \<and> (inst_id s = instId \<and> \<not> inst_paid s \<longrightarrow>
                        s' = s\<lparr>inst_paid := True, inst_paidDate := Some today\<rparr>)
                  \<and> (inst_id s = instId \<and> inst_paid s \<longrightarrow>
                        s' = s\<lparr>inst_paid := False, inst_paidDate := None\<rparr>)
                  \<and> (inst_id s = instId \<and> \<not> inst_paid s \<longrightarrow>
                        loan_schedule (get_loans k again ! i) ! j
                          = s\<lparr>inst_paid := False, inst_paidDate := None\<rparr>))))"
  unfolding again_def next_def toggleInstallment_def Let_def
  by (simp add: nth_map)

theorem toggleInstallment_frame_witness:
  "loan_schedule (loansTaken (toggleInstallment ''2024-02-10'' LoansTaken ''l1'' ''i1''
      \<lparr>transactions = [], loansTaken = [\<lparr>loan_id = ''l1'', loan_person = ''Ali'', loan_amount = Fin 1000,
         loan_startDate = ''2024-01-15'', loan_dueDate = None, loan_installments = 2, loan_notes = [],
         loan_schedule = [\<lparr>inst_id = ''i1'', inst_dueDate = ''2024-02-15'', inst_amount = Fin 500,
                            inst_paid = False, inst_paidDate = None\<rparr>,
                          \<lparr>inst_id = ''i2'', inst_dueDate = ''2024-03-15'', inst_amount = Fin 500,
                            inst_paid = False, inst_paidDate = None\<rparr>]\<rparr>], loansGiven = []\<rparr>) ! 0) ! 0
   = \<lparr>inst_id = ''i1'', inst_dueDate = ''2024-02-15'', inst_amount = Fin 500,
       inst_paid = True, inst_paidDate = Some ''2024-02-10''\<rparr>"
  using toggleInstallment_frame [of LoansTaken "''2024-02-10''" "''l1''" "''i1''"
      "\<lparr>transactions = [], loansTaken = [\<lparr>loan_id = ''l1'', loan_person = ''Ali'', loan_amount = Fin 1000,
         loan_startDate = ''2024-01-15'', loan_dueDate = None, loan_installments = 2, loan_notes = [],
         loan_schedule = [\<lparr>inst_id = ''i1'', inst_dueDate = ''2024-02-15'', inst_amount = Fin 500,
                            inst_paid = False, inst_paidDate = None\<rparr>,
                          \<lparr>inst_id = ''i2'', inst_dueDate = ''2024-03-15'', inst_amount = Fin 500,
                            inst_paid = False, inst_paidDate = None\<rparr>]\<rparr>], loansGiven = []\<rparr>"]
  by (simp add: Let_def)

section \<open>The running balance\<close>

lemma running_map_append:
  "running_map (xs @ ys) bal
     = running_map xs bal @ running_map ys (foldl (\<lambda>b t. num_add b (signed t)) bal xs)"
  by (induction xs arbitrary: bal) (simp_all add: Let_def signed_def)

lemma running_Nil: "running [] = []"
  by (simp add: running_def)

text \<open>
  The balance of a row is the signed sum of its own transaction and of all the rows
  after it, added up from the last row: the balance is accumulated from the end of
  \<open>bankTx\<close> towards its head.
\<close>

lemma running_Cons:
  "running (t # ts)
     = \<lparr>r_tx = t, r_running = foldl (\<lambda>b t. num_add b (signed t)) (Fin 0) (rev (t # ts))\<rparr> # running ts"
  by (simp add: running_def running_map_append Let_def signed_def)

lemma running_empty_iff: "running btx = [] \<longleftrightarrow> btx = []"
  by (cases btx) (simp_all add: running_Cons running_Nil)

lemma running_last:
  "btx \<noteq> [] \<Longrightarrow>
   last (running btx) = \<lparr>r_tx = last btx, r_running = num_add (Fin 0) (signed (last btx))\<rparr>"
  by (induction btx) (auto simp: running_Cons running_Nil running_empty_iff)

lemma running_hd:
  "btx \<noteq> [] \<Longrightarrow>
   hd (running btx)
     = \<lparr>r_tx = hd btx, r_running = foldl (\<lambda>b t. num_add b (signed t)) (Fin 0) (rev btx)\<rparr>"
  by (cases btx) (simp_all add: running_Cons)

text \<open>
  Claim C5 says that the running balance of the chronologically last entry is the
  balance of the bank. In the ledger below the income of 50 was added after the income
  of 100. The rows of \<open>running\<close> are in chronological order, and the last row, of the
  newest transaction, shows 50, its own amount; the balance of the bank, 150, is on the
  first row, of the oldest transaction.
\<close>

theorem running_newest_row_is_not_balance:
  "running (bankTx
      [\<lparr>tx_id = ''b'', tx_date = ''2024-01-02'', tx_type = Income, tx_description = [],
         tx_amount = Fin 50, tx_bank = ''UBL'', tx_category = ''Gift''\<rparr>,
       \<lparr>tx_id = ''a'', tx_date = ''2024-01-01'', tx_type = Income, tx_description = [],
         tx_amount = Fin 100, tx_bank = ''UBL'', tx_category = ''Salary''\<rparr>] ''UBL'')
   = [\<lparr>r_tx = \<lparr>tx_id = ''a'', tx_date = ''2024-01-01'', tx_type = Income, tx_description = [],
         tx_amount = Fin 100, tx_bank = ''UBL'', tx_category = ''Salary''\<rparr>, r_running = Fin 150\<rparr>,
      \<lparr>r_tx = \<lparr>tx_id = ''b'', tx_date = ''2024-01-02'', tx_type = Income, tx_description = [],
         tx_amount = Fin 50, tx_bank = ''UBL'', tx_category = ''Gift''\<rparr>, r_running = Fin 50\<rparr>]
   \<and> map_of (bankSummaries
      [\<lparr>tx_id = ''b'', tx_date = ''2024-01-02'', tx_type = Income, tx_description = [],
         tx_amount = Fin 50, tx_bank = ''UBL'', tx_category = ''Gift''\<rparr>,
       \<lparr>tx_id = ''a'', tx_date = ''2024-01-01'', tx_type = Income, tx_description = [],
         tx_amount = Fin 100, tx_bank = ''UBL'', tx_category = ''Salary''\<rparr>]) ''UBL''
     = Some (Num (Fin 150))"
  by (simp add: running_def bankTx_def bankSummaries_def fromEntries_def BANKS_def signed_def
      has_property_def get_property_def set_property_def rnd_whole Let_def)

section \<open>The monthly totals\<close>

text \<open>
  Claim C8 says that the rows of the monthly totals have \<open>YYYY-MM\<close> period keys and come
  in ascending order of the periods, and the source's comment on \<open>monthKey\<close> names that
  format. \<open>monthKey\<close> prints the year without leading zeros, so the period key of a
  date before the year 1000 has fewer than four year digits, and the string order of
  \<open>sort()\<close> is not the order of the periods: for an income of 50 on 5 March of the
  year 24 and an income of 100 on 15 November 2023, the row of November 2023 comes
  first and the row of March 24 has the key \<open>24-03\<close>.
\<close>

theorem monthKey_drops_leading_zeros:
  "monthKey ''0024-03-05'' = ''24-03''
   \<and> monthlySavings
       [\<lparr>tx_id = ''b'', tx_date = ''0024-03-05'', tx_type = Income, tx_description = [],
          tx_amount = Fin 50, tx_bank = ''UBL'', tx_category = ''Gift''\<rparr>,
        \<lparr>tx_id = ''a'', tx_date = ''2023-11-15'', tx_type = Income, tx_description = [],
          tx_amount = Fin 100, tx_bank = ''UBL'', tx_category = ''Salary''\<rparr>]
     = [\<lparr>m_month = ''2023-11'', m_income = Fin 100, m_expense = Fin 0, m_saving = Fin 100\<rparr>,
        \<lparr>m_month = ''24-03'', m_income = Fin 50, m_expense = Fin 0, m_saving = Fin 50\<rparr>]"
proof -
  have k1: "monthKey ''0024-03-05'' = ''24-03''"
    by (simp add: monthKey_def digit_def DaysInMonth_def leap_def String_nat.simps padStart_def
        digit_char_def)
  have k2: "monthKey ''2023-11-15'' = ''2023-11''"
    by (simp add: monthKey_def digit_def DaysInMonth_def leap_def String_nat.simps padStart_def
        digit_char_def)
  show ?thesis
    by (simp add: monthlySavings_def k1 k2 bucket_add_def entry_string_def rnd_whole)
qed

text \<open>
  The example of claim C8, on the first days of two months, is as the claim gives it
  (on a host east of Greenwich, where the local day of a date-only string is the day
  it names).
\<close>

lemma example_monthlySavings:
  "monthlySavings
       [\<lparr>tx_id = i1, tx_date = ''2024-01-01'', tx_type = Income, tx_description = s1,
          tx_amount = Fin 100, tx_bank = b1, tx_category = c1\<rparr>,
        \<lparr>tx_id = i2, tx_date = ''2024-01-01'', tx_type = Expense, tx_description = s2,
          tx_amount = Fin 40, tx_bank = b2, tx_category = c2\<rparr>,
        \<lparr>tx_id = i3, tx_date = ''2024-02-01'', tx_type = Income, tx_description = s3,
          tx_amount = Fin 50, tx_bank = b3, tx_category = c3\<rparr>]
     = [\<lparr>m_month = ''2024-01'', m_income = Fin 100, m_expense = Fin 40, m_saving = Fin 60\<rparr>,
        \<lparr>m_month = ''2024-02'', m_income = Fin 50, m_expense = Fin 0, m_saving = Fin 50\<rparr>]"
proof -
  have k1: "monthKey ''2024-01-01'' = ''2024-01''"
    by (simp add: monthKey_def digit_def DaysInMonth_def leap_def String_nat.simps padStart_def
        digit_char_def)
  have k2: "monthKey ''2024-02-01'' = ''2024-02''"
    by (simp add: monthKey_def digit_def DaysInMonth_def leap_def String_nat.simps padStart_def
        digit_char_def)
  show ?thesis
    by (simp add: monthlySavings_def k1 k2 bucket_add_def entry_string_def rnd_whole)
qed

section \<open>Due dates\<close>

lemma date_less_by_month:
  assumes "getMonth a < 12" "getMonth b < 12"
  shows "date_less a b \<longleftrightarrow>
     12 * getFullYear a + getMonth a < 12 * getFullYear b + getMonth b
     \<or> 12 * getFullYear a + getMonth a = 12 * getFullYear b + getMonth b \<and> getDate a < getDate b"
  unfolding date_less_def using assms by arith

lemma due_increasing:
  assumes "getDate d0 \<le> 31" and "k < k'"
  shows "date_less (due d0 k) (due d0 k')"
proof -
  from due_cases [OF assms(1), of k] due_cases [OF assms(1), of k'] assms(2)
  show ?thesis
    by (subst date_less_by_month) auto
qed

lemma iso_less:
  assumes "date_less a b"
    and "getFullYear a \<le> 9999" "getFullYear b \<le> 9999"
    and "getMonth a < 12" "getMonth b < 12"
    and "getDate a \<le> 31" "getDate b \<le> 31"
  shows "take 10 (toISOString a) < take 10 (toISOString b)"
proof -
  have y: "pad 4 (getFullYear a) < pad 4 (getFullYear b) \<longleftrightarrow> getFullYear a < getFullYear b"
    using assms(2,3) by (intro pad_less) simp_all
  have m: "pad 2 (Suc (getMonth a)) < pad 2 (Suc (getMonth b)) \<longleftrightarrow> getMonth a < getMonth b"
    using assms(4,5) pad_less [of "Suc (getMonth a)" 2 "Suc (getMonth b)"] by simp
  have d: "pad 2 (getDate a) < pad 2 (getDate b) \<longleftrightarrow> getDate a < getDate b"
    using assms(6,7) by (intro pad_less) simp_all
  from assms(1) consider
      "getFullYear a < getFullYear b"
    | "getFullYear a = getFullYear b" "getMonth a < getMonth b"
    | "getFullYear a = getFullYear b" "getMonth a = getMonth b" "getDate a < getDate b"
    unfolding date_less_def by blast
  then show ?thesis
  proof cases
    case 1
    then show ?thesis
      by (simp add: iso10 assms(2,3) append_less_same_length y)
  next
    case 2
    then show ?thesis
      by (simp add: iso10 assms(2,3) append_less_same_length m)
  next
    case 3
    then show ?thesis
      by (simp add: iso10 assms(2,3) append_less_same_length d)
  qed
qed

lemma generateSchedule_dueDates:
  assumes "1 \<le> n" and "new_Date start = Some d0"
      and "12 * getFullYear d0 + getMonth d0 + nat n < 12 * 275760"
  shows "\<exists>sch. generateSchedule uid p start n = Inr sch
     \<and> map inst_dueDate sch = map (\<lambda>i. take 10 (toISOString (due d0 i))) [0 ..< nat n]"
proof -
  have "nat n = Suc (nat n - 1)"
    using assms(1) by simp
  then have "[0 ..< nat n] = [0 ..< nat n - 1] @ [nat n - 1]"
    by (metis upt_Suc_append zero_le)
  then show ?thesis
    by (simp add: generateSchedule_valid [OF assms] mk_installment_def comp_def)
qed

text \<open>
  Up to the year 9999 the due dates of a schedule are strictly increasing, whatever the
  day of the start date is.
\<close>

lemma due_dates_increasing:
  assumes "1 \<le> n" and "new_Date start = Some d0"
    and "12 * getFullYear d0 + getMonth d0 + nat n + 1 < 120000"
  shows "\<exists>sch. generateSchedule uid p start n = Inr sch \<and> sorted_wrt (<) (map inst_dueDate sch)"
proof -
  have day: "getDate d0 \<le> 31"
    using assms(2) by (rule new_Date_day)
  have range: "12 * getFullYear d0 + getMonth d0 + nat n < 12 * 275760"
    using assms(3) by simp
  have bound: "getMonth (due d0 i) < 12 \<and> getFullYear (due d0 i) \<le> 9999 \<and> getDate (due d0 i) \<le> 31"
    if "i < nat n" for i
  proof -
    from due_cases [OF day, of i]
    have m: "getMonth (due d0 i) < 12"
      and idx: "12 * getFullYear (due d0 i) + getMonth (due d0 i) \<le> 12 * getFullYear d0 + getMonth d0 + i + 2"
      and dd: "getDate (due d0 i) \<le> getDate d0"
      by auto
    from idx that assms(3) have "12 * getFullYear (due d0 i) < 120000" by linarith
    then show ?thesis using m dd day by simp
  qed
  have "sorted_wrt (<) (map (\<lambda>i. take 10 (toISOString (due d0 i))) [0 ..< nat n])"
    unfolding sorted_wrt_map
  proof (rule sorted_wrt_mono_rel [of _ "(<)"])
    fix i j
    assume "i \<in> set [0 ..< nat n]" "j \<in> set [0 ..< nat n]" "i < j"
    then have "date_less (due d0 i) (due d0 j)" "i < nat n" "j < nat n"
      using due_increasing [OF day, of i j] by simp_all
    then show "take 10 (toISOString (due d0 i)) < take 10 (toISOString (due d0 j))"
      using bound [of i] bound [of j] by (intro iso_less) simp_all
  next
    show "sorted_wrt (<) [0 ..< nat n]"
      by (simp add: sorted_wrt_upt)
  qed
  with generateSchedule_dueDates [OF assms(1,2) range, of uid p] show ?thesis
    by auto
qed

text \<open>
  For a start on a day up to the 28th, installment \<open>i\<close> is due on the same day of the
  month, \<open>i + 1\<close> calendar months after the start date.
\<close>

lemma due_dates_monthly:
  assumes "1 \<le> n" and "new_Date start = Some d0" and "getDate d0 \<le> 28"
      and "12 * getFullYear d0 + getMonth d0 + nat n < 12 * 275760"
  shows "\<exists>sch. generateSchedule uid p start n = Inr sch
     \<and> map inst_dueDate sch
         = map (\<lambda>i. take 10 (toISOString
                  \<lparr>getFullYear = getFullYear d0 + (getMonth d0 + i + 1) div 12,
                   getMonth = (getMonth d0 + i + 1) mod 12,
                   getDate = getDate d0\<rparr>)) [0 ..< nat n]"
  using generateSchedule_dueDates [OF assms(1,2,4), of uid p]
  by (simp add: due_short_day [OF assms(3)])

text \<open>The doubles that the generator computes for a principal of 1000 in 2 and in 3 installments.\<close>


lemma halves_round_1: "Math_round (Fin 50000) = Fin 50000"
  using Math_round_cert [where x = "50000" and m = "50000"]
  by simp

lemmas halves_values = halves_round_1
lemma thirds_2: "rnd (1000 / 3) = Fin (5864062014805333 / 17592186044416)"
  using rnd_cert [where x = "1000 / 3" and e = "8" and m = "5864062014805333"]
  by (simp add: pow2_def)

lemma thirds_3: "rnd (146601550370133325 / 4398046511104) = Fin (2290649224533333 / 68719476736)"
  using rnd_cert [where x = "146601550370133325 / 4398046511104" and e = "15" and m = "4581298449066666"]
  by (simp add: pow2_def)

lemma thirds_4: "rnd (33333 / 100) = Fin (5864003374185185 / 17592186044416)"
  using rnd_cert [where x = "33333 / 100" and e = "8" and m = "5864003374185185"]
  by (simp add: pow2_def)

lemma thirds_5: "rnd (5864003374185185 / 17592186044416) = Fin (5864003374185185 / 17592186044416)"
  using rnd_cert [where x = "5864003374185185 / 17592186044416" and e = "8" and m = "5864003374185185"]
  by (simp add: pow2_def)

lemma thirds_6: "rnd (5864003374185185 / 8796093022208) = Fin (5864003374185185 / 8796093022208)"
  using rnd_cert [where x = "5864003374185185 / 8796093022208" and e = "9" and m = "5864003374185185"]
  by (simp add: pow2_def)

lemma thirds_7: "rnd (17592010122555555 / 17592186044416) = Fin (4398002530638889 / 4398046511104)"
  using rnd_cert [where x = "17592010122555555 / 17592186044416" and e = "9" and m = "8796005061277778"]
  by (simp add: pow2_def)

lemma thirds_8: "rnd (43980465111 / 4398046511104) = Fin (43980465111 / 4398046511104)"
  using rnd_cert [where x = "43980465111 / 4398046511104" and e = "- 7" and m = "5764607523028992"]
  by (simp add: pow2_def)

lemma thirds_9: "rnd (5864179296045629 / 17592186044416) = Fin (5864179296045629 / 17592186044416)"
  using rnd_cert [where x = "5864179296045629 / 17592186044416" and e = "8" and m = "5864179296045629"]
  by (simp add: pow2_def)

lemma thirds_10: "rnd (146604482401140725 / 4398046511104) = Fin 33334"
  using rnd_cert [where x = "146604482401140725 / 4398046511104" and e = "15" and m = "4581390075035648"]
  by (simp add: pow2_def)

lemma thirds_11: "rnd (16667 / 50) = Fin (5864179296045629 / 17592186044416)"
  using rnd_cert [where x = "16667 / 50" and e = "8" and m = "5864179296045629"]
  by (simp add: pow2_def)

lemma thirds_round_1: "Math_round (Fin (2290649224533333 / 68719476736)) = Fin 33333"
  using Math_round_cert [where x = "2290649224533333 / 68719476736" and m = "33333"]
  by simp

lemma thirds_round_2: "Math_round (Fin 33334) = Fin 33334"
  using Math_round_cert [where x = "33334" and m = "33334"]
  by simp

lemmas thirds_values = thirds_2 thirds_3 thirds_4 thirds_5 thirds_6 thirds_7 thirds_8 thirds_9 thirds_10 thirds_11 thirds_round_1 thirds_round_2

text \<open>
  Claim C3 says that the due dates of every schedule are exactly one calendar month
  apart, installment \<open>i\<close> being due \<open>i + 1\<close> calendar months after the start date. For
  a loan of two installments that starts on 31 January 2024 the generator returns the
  due dates 2 March and 31 March: no installment is due in February, and the two due
  dates lie in the same month. \<open>setMonth\<close> keeps the day 31, and the 31st day of
  February 2024 is 2 March.
\<close>

theorem end_of_month_due_dates:
  "generateSchedule uid (Fin 1000) ''2024-01-31'' 2
     = Inr [\<lparr>inst_id = uid 0, inst_dueDate = ''2024-03-02'', inst_amount = Fin 500,
              inst_paid = False, inst_paidDate = None\<rparr>,
            \<lparr>inst_id = uid 1, inst_dueDate = ''2024-03-31'', inst_amount = Fin 500,
              inst_paid = False, inst_paidDate = None\<rparr>]"
proof -
  have n: "(1::int) \<le> 2" by simp
  have range: "12 * getFullYear \<lparr>getFullYear = 2024, getMonth = 0, getDate = 31\<rparr>
      + getMonth \<lparr>getFullYear = 2024, getMonth = 0, getDate = 31\<rparr> + nat 2 < 12 * 275760"
    by simp
  have per: "per_amount (Fin 1000) 2 = Fin 500"
    by (simp add: per_amount_def rnd_whole halves_values)
  have lst: "last_amount (Fin 1000) 2 = Fin 500"
    by (simp add: last_amount_def per eval_nat_numeral) (simp add: rnd_whole halves_values)
  show ?thesis
    unfolding generateSchedule_valid [OF n new_Date_2024_01_31 range] per lst
    by (simp add: mk_installment_def due_def MakeDay.simps DaysInMonth_def leap_def
        toISOString_def digit_char_def pad_2 pad_4)
qed

text \<open>
  The example of claim C3, a start on the 15th, is as the claim gives it: the amounts
  are the doubles nearest to 333.33 and 333.34.
\<close>

lemma example_schedule:
  "generateSchedule uid (Fin 1000) ''2024-01-15'' 3
     = Inr [\<lparr>inst_id = uid 0, inst_dueDate = ''2024-02-15'', inst_amount = literal (33333 / 100),
              inst_paid = False, inst_paidDate = None\<rparr>,
            \<lparr>inst_id = uid 1, inst_dueDate = ''2024-03-15'', inst_amount = literal (33333 / 100),
              inst_paid = False, inst_paidDate = None\<rparr>,
            \<lparr>inst_id = uid 2, inst_dueDate = ''2024-04-15'', inst_amount = literal (33334 / 100),
              inst_paid = False, inst_paidDate = None\<rparr>]"
proof -
  have n: "(1::int) \<le> 3" by simp
  have range: "12 * getFullYear \<lparr>getFullYear = 2024, getMonth = 0, getDate = 15\<rparr>
      + getMonth \<lparr>getFullYear = 2024, getMonth = 0, getDate = 15\<rparr> + nat 3 < 12 * 275760"
    by simp
  have per: "per_amount (Fin 1000) 3 = literal (33333 / 100)"
    by (simp add: per_amount_def literal_def rnd_whole thirds_values)
  have lst: "last_amount (Fin 1000) 3 = literal (33334 / 100)"
    by (simp add: last_amount_def per eval_nat_numeral) (simp add: literal_def rnd_whole thirds_values)
  show ?thesis
    unfolding generateSchedule_valid [OF n new_Date_2024_01_15 range] per lst
    by (simp add: mk_installment_def due_def MakeDay.simps DaysInMonth_def leap_def
        toISOString_def digit_char_def pad_2 pad_4 upt_rec)
qed

end
